theory Spec2Isabelle
  imports Main "HOL-Library.Word"
begin

unbundle bit_operations_syntax

section \<open>Software integer multiplication\<close>

text \<open>
  \<^verbatim>\<open>umul\<close> of \<^verbatim>\<open>bf16_implementation.c\<close>: the shift-and-add loop on
  \<^verbatim>\<open>uint32_t\<close> values. The loop state is \<open>(a, b, result)\<close>; every operation is the
  one of \<open>32 word\<close>, so \<open>+\<close> and \<open>push_bit\<close> wrap at \<open>2 ^ 32\<close> as in C.
\<close>

type_synonym u16 = "16 word"
type_synonym u32 = "32 word"

function umul_loop :: "u32 \<Rightarrow> u32 \<Rightarrow> u32 \<Rightarrow> u32" where
  "umul_loop a b result =
     (if b \<noteq> 0
      then umul_loop (push_bit 1 a) (drop_bit 1 b) (if b AND 1 \<noteq> 0 then result + a else result)
      else result)"
  by pat_completeness auto
termination
proof (relation "measure (\<lambda>(a, b, result). unat b)")
  show "wf (measure (\<lambda>(a, b, result). unat b))"
    by simp
next
  fix a b result :: u32
  assume "b \<noteq> 0"
  then have "0 < unat b"
    by (simp add: unat_gt_0)
  then have "unat b div 2 < unat b"
    by simp
  then show "((push_bit 1 a, drop_bit 1 b, if b AND 1 \<noteq> 0 then result + a else result),
              (a, b, result)) \<in> measure (\<lambda>(a, b, result). unat b)"
    by (simp add: unat_drop_bit_eq drop_bit_eq_div unat_div)
qed

declare umul_loop.simps [simp del]

definition umul :: "u32 \<Rightarrow> u32 \<Rightarrow> u32" where
  "umul a b = umul_loop a b 0"

text \<open>\<^verbatim>\<open>__mulsi3\<close>, the entry point GCC calls, is \<^verbatim>\<open>umul\<close>.\<close>

definition mulsi3 :: "u32 \<Rightarrow> u32 \<Rightarrow> u32" where
  "mulsi3 a b = umul a b"

section \<open>The bfloat16 pattern and its predicates\<close>

text \<open>
  \<^verbatim>\<open>typedef struct { uint16_t bits; } bf16_t;\<close> with the masks and constants of the
  source. The three fields are read in every operation by the same expressions
  \<^verbatim>\<open>bits >> 15 & 1\<close>, \<^verbatim>\<open>bits >> 7 & 0xFF\<close> and \<^verbatim>\<open>bits & 0x7F\<close>; the exponent is
  stored in an \<^verbatim>\<open>int16_t\<close> and is modelled as an \<open>int\<close> (it is between 0 and 255 when
  read, and no later computation on it leaves the range of \<^verbatim>\<open>int16_t\<close>).
\<close>

record bf16_t =
  bits :: u16

definition BF16_NAN :: bf16_t where
  "BF16_NAN = \<lparr>bits = 0x7FC0\<rparr>"

definition BF16_ZERO :: bf16_t where
  "BF16_ZERO = \<lparr>bits = 0x0000\<rparr>"

definition bf16_one :: bf16_t where
  "bf16_one = \<lparr>bits = 0x3F80\<rparr>"

definition bf16_isnan :: "bf16_t \<Rightarrow> bool" where
  "bf16_isnan a \<longleftrightarrow> (bits a AND 0x7F80) = 0x7F80 \<and> (bits a AND 0x007F) \<noteq> 0"

definition bf16_isinf :: "bf16_t \<Rightarrow> bool" where
  "bf16_isinf a \<longleftrightarrow> (bits a AND 0x7F80) = 0x7F80 \<and> (bits a AND 0x007F) = 0"

definition bf16_iszero :: "bf16_t \<Rightarrow> bool" where
  "bf16_iszero a \<longleftrightarrow> (bits a AND 0x7FFF) = 0"

definition sign_of :: "bf16_t \<Rightarrow> u16" where
  "sign_of a = drop_bit 15 (bits a) AND 1"

definition exp_of :: "bf16_t \<Rightarrow> int" where
  "exp_of a = uint (drop_bit 7 (bits a) AND 0xFF)"

definition mant_of :: "bf16_t \<Rightarrow> u16" where
  "mant_of a = bits a AND 0x7F"

text \<open>
  The result expression shared by the three operations,
  \<^verbatim>\<open>(result_sign << 15) | ((result_exp & 0xFF) << 7) | (result_mant & 0x7F)\<close>,
  truncated to the 16 bits of the \<^verbatim>\<open>bits\<close> field.
\<close>

definition pack :: "u16 \<Rightarrow> int \<Rightarrow> u32 \<Rightarrow> bf16_t" where
  "pack result_sign result_exp result_mant =
     \<lparr>bits = push_bit 15 result_sign OR word_of_int (push_bit 7 (result_exp AND 0xFF))
               OR ucast (result_mant AND 0x7F)\<rparr>"

text \<open>Signed infinity \<^verbatim>\<open>(result_sign << 15) | 0x7F80\<close> and signed zero \<^verbatim>\<open>result_sign << 15\<close>.\<close>

definition signed_inf :: "u16 \<Rightarrow> bf16_t" where
  "signed_inf result_sign = \<lparr>bits = push_bit 15 result_sign OR 0x7F80\<rparr>"

definition signed_zero :: "u16 \<Rightarrow> bf16_t" where
  "signed_zero result_sign = \<lparr>bits = push_bit 15 result_sign\<rparr>"

section \<open>Leading-zero count\<close>

text \<open>
  \<^verbatim>\<open>clz\<close>: the \<^verbatim>\<open>do ... while (c)\<close> loop with \<^verbatim>\<open>c\<close> = 16, 8, 4, 2, 1. The loop state is
  \<open>(x, n, c)\<close>; \<^verbatim>\<open>c\<close> is a C \<^verbatim>\<open>int\<close> that only halves from 16, here a \<open>nat\<close>.
  The result \<^verbatim>\<open>n - x\<close> is computed in \<^verbatim>\<open>unsigned\<close>.
\<close>

function clz_loop :: "u32 \<Rightarrow> int \<Rightarrow> nat \<Rightarrow> int \<times> u32" where
  "clz_loop x n c =
     (let y = drop_bit c x;
          n' = (if y \<noteq> 0 then n - int c else n);
          x' = (if y \<noteq> 0 then y else x);
          c' = c div 2
      in if c' \<noteq> 0 then clz_loop x' n' c' else (n', x'))"
  by pat_completeness auto
termination
  by (relation "measure (\<lambda>(x, n, c). c)") auto

declare clz_loop.simps [simp del]

definition clz :: "u32 \<Rightarrow> u32" where
  "clz x = (case clz_loop x 32 16 of (n, x') \<Rightarrow> word_of_int n - x')"

section \<open>Addition and subtraction\<close>

text \<open>
  The two renormalisation loops of \<^verbatim>\<open>bf16_add\<close>. Each can leave the function with a
  \<^verbatim>\<open>return\<close>: \<open>Inl r\<close> is that early return of \<open>r\<close>, \<open>Inr (result_mant, result_exp)\<close>
  the state after the loop.

  \<^verbatim>\<open>for (unsigned i = 0; i < 32 - lz - 8; i++) { result_mant >>= 1;
     if (++result_exp >= 255) return BF16_NAN(); }\<close>
  The bound \<^verbatim>\<open>32 - lz - 8\<close> is an \<^verbatim>\<open>unsigned\<close> expression and wraps around.
\<close>

function add_shift_right :: "u32 \<Rightarrow> u32 \<Rightarrow> u32 \<Rightarrow> int \<Rightarrow> bf16_t + (u32 \<times> int)" where
  "add_shift_right i bound result_mant result_exp =
     (if i < bound
      then (if result_exp + 1 \<ge> 255 then Inl BF16_NAN
            else add_shift_right (i + 1) bound (drop_bit 1 result_mant) (result_exp + 1))
      else Inr (result_mant, result_exp))"
  by pat_completeness auto
termination
proof (relation "measure (\<lambda>(i, bound, result_mant, result_exp). unat bound - unat i)")
  show "wf (measure (\<lambda>(i, bound, result_mant, result_exp). unat bound - unat i))"
    by simp
next
  fix i bound result_mant :: u32 and result_exp :: int
  assume "i < bound"
  then have lt: "unat i < unat bound"
    by (simp add: word_less_nat_alt)
  moreover have "unat bound < 2 ^ 32"
    using unsigned_less [of bound] by simp
  ultimately have "unat (i + 1) = unat i + 1"
    by (simp add: unat_word_ariths)
  with lt show "((i + 1, bound, drop_bit 1 result_mant, result_exp + 1),
                 (i, bound, result_mant, result_exp))
                \<in> measure (\<lambda>(i, bound, result_mant, result_exp). unat bound - unat i)"
    by simp
qed

declare add_shift_right.simps [simp del]

text \<open>
  \<^verbatim>\<open>while (!(result_mant & 0x80)) { result_mant <<= 1;
     if (--result_exp <= 0) return BF16_ZERO(); }\<close>
\<close>

function add_shift_left :: "u32 \<Rightarrow> int \<Rightarrow> bf16_t + (u32 \<times> int)" where
  "add_shift_left result_mant result_exp =
     (if result_mant AND 0x80 = 0
      then (if result_exp - 1 \<le> 0 then Inl BF16_ZERO
            else add_shift_left (push_bit 1 result_mant) (result_exp - 1))
      else Inr (result_mant, result_exp))"
  by pat_completeness auto
termination
  by (relation "measure (\<lambda>(result_mant, result_exp). nat result_exp)") auto

declare add_shift_left.simps [simp del]

text \<open>
  Lines 162 to 199 of \<^verbatim>\<open>bf16_add\<close>: the arithmetic on the aligned mantissas
  (\<^verbatim>\<open>uint16_t\<close>, widened to \<^verbatim>\<open>uint32_t\<close>) and the common exponent.
\<close>

definition add_aligned :: "u16 \<Rightarrow> u16 \<Rightarrow> u16 \<Rightarrow> u16 \<Rightarrow> int \<Rightarrow> bf16_t" where
  "add_aligned sign_a sign_b mant_a mant_b result_exp =
     (if sign_a = sign_b
      then
        (let result_sign = sign_a;
             result_mant = (ucast mant_a + ucast mant_b :: u32);
             lz = clz result_mant
         in case add_shift_right 0 (32 - lz - 8) result_mant result_exp of
              Inl r \<Rightarrow> r
            | Inr (result_mant, result_exp) \<Rightarrow> pack result_sign result_exp result_mant)
      else
        (let result_sign = (if mant_a \<ge> mant_b then sign_a else sign_b);
             result_mant = (if mant_a \<ge> mant_b then ucast mant_a - ucast mant_b
                            else ucast mant_b - ucast mant_a :: u32)
         in if result_mant = 0 then BF16_ZERO
            else
              case (if result_mant < 0x80 then add_shift_left result_mant result_exp
                    else add_shift_right 0 (32 - clz result_mant - 8) result_mant result_exp) of
                Inl r \<Rightarrow> r
              | Inr (result_mant, result_exp) \<Rightarrow> pack result_sign result_exp result_mant))"

text \<open>
  \<^verbatim>\<open>bf16_add\<close>: the special cases, the implicit bit and the alignment (lines 112 to 160).
  The test \<^verbatim>\<open>(mant_b || sign_a == sign_b) ? b : BF16_NAN()\<close> is written with the two
  disjuncts in their order of evaluation.
\<close>

definition bf16_add :: "bf16_t \<Rightarrow> bf16_t \<Rightarrow> bf16_t" where
  "bf16_add a b =
     (let sign_a = sign_of a; sign_b = sign_of b;
          exp_a = exp_of a; exp_b = exp_of b;
          mant_a = mant_of a; mant_b = mant_of b
      in if exp_a = 0xFF
         then (if mant_a \<noteq> 0 then a
               else if exp_b = 0xFF
               then (if mant_b \<noteq> 0 then b else if sign_a = sign_b then b else BF16_NAN)
               else a)
         else if exp_b = 0xFF then b
         else if exp_a = 0 \<and> mant_a = 0 then b
         else if exp_b = 0 \<and> mant_b = 0 then a
         else
           (let mant_a = (if exp_a \<noteq> 0 then mant_a OR 0x80 else mant_a);
                mant_b = (if exp_b \<noteq> 0 then mant_b OR 0x80 else mant_b);
                exp_diff = exp_a - exp_b
            in if exp_diff > 0
               then (if exp_diff > 8 then a
                     else add_aligned sign_a sign_b (push_bit (nat exp_diff) mant_a) mant_b exp_b)
               else if exp_diff < 0
               then (if exp_diff < - 8 then b
                     else add_aligned sign_a sign_b mant_a (push_bit (nat (- exp_diff)) mant_b) exp_a)
               else add_aligned sign_a sign_b mant_a mant_b exp_a))"

definition bf16_sub :: "bf16_t \<Rightarrow> bf16_t \<Rightarrow> bf16_t" where
  "bf16_sub a b = bf16_add a (b\<lparr>bits := bits b XOR 0x8000\<rparr>)"

section \<open>Multiplication\<close>

text \<open>
  The normalisation of a denormal operand in \<^verbatim>\<open>bf16_mul\<close>:
  \<^verbatim>\<open>while (!(mant_a & 0x80)) { mant_a <<= 1; exp_adjust--; }\<close>
  on a \<^verbatim>\<open>uint16_t\<close> mantissa. The loop has no bound of its own (it never ends on a
  mantissa whose low eight bits are all 0), so it is a partial function: \<open>None\<close> is
  the loop that does not end.
\<close>

partial_function (option) mul_normalize :: "u16 \<Rightarrow> int \<Rightarrow> (u16 \<times> int) option" where
  "mul_normalize mant exp_adjust =
     (if mant AND 0x80 = 0 then mul_normalize (push_bit 1 mant) (exp_adjust - 1)
      else Some (mant, exp_adjust))"

declare mul_normalize.simps [code]

text \<open>
  Lines 237 to 244 (and 245 to 252 for \<^verbatim>\<open>b\<close>): a denormal operand is normalised and its
  exponent set to 1, a normal operand gets its implicit bit. The result is
  \<open>(exp, mant, exp_adjust)\<close>.
\<close>

definition mul_operand :: "int \<Rightarrow> u16 \<Rightarrow> int \<Rightarrow> (int \<times> u16 \<times> int) option" where
  "mul_operand exp mant exp_adjust =
     (if exp = 0
      then (case mul_normalize mant exp_adjust of
              None \<Rightarrow> None
            | Some (mant', exp_adjust') \<Rightarrow> Some (1, mant', exp_adjust'))
      else Some (exp, mant OR 0x80, exp_adjust))"

text \<open>
  Lines 254 to 261: the product of the two mantissas in \<^verbatim>\<open>uint32_t\<close>, the combined
  exponent in \<^verbatim>\<open>int32_t\<close>, and the carry into bit 15. The result is
  \<open>(result_mant, result_exp)\<close>.
\<close>

definition mul_product :: "int \<Rightarrow> u16 \<Rightarrow> int \<Rightarrow> u16 \<Rightarrow> int \<Rightarrow> u32 \<times> int" where
  "mul_product exp_a mant_a exp_b mant_b exp_adjust =
     (let result_mant = (ucast mant_a * ucast mant_b :: u32);
          result_exp = exp_a + exp_b - 127 + exp_adjust
      in if result_mant AND 0x8000 \<noteq> 0
         then (drop_bit 8 result_mant AND 0x7F, result_exp + 1)
         else (drop_bit 7 result_mant AND 0x7F, result_exp))"

text \<open>
  Lines 236 to 261 together: both operands prepared in turn (\<^verbatim>\<open>exp_adjust\<close> starts at 0 and
  is carried from \<^verbatim>\<open>a\<close> to \<^verbatim>\<open>b\<close>), then the product.
\<close>

definition mul_core :: "int \<Rightarrow> u16 \<Rightarrow> int \<Rightarrow> u16 \<Rightarrow> (u32 \<times> int) option" where
  "mul_core exp_a mant_a exp_b mant_b =
     (case mul_operand exp_a mant_a 0 of
        None \<Rightarrow> None
      | Some (exp_a, mant_a, exp_adjust) \<Rightarrow>
          (case mul_operand exp_b mant_b exp_adjust of
             None \<Rightarrow> None
           | Some (exp_b, mant_b, exp_adjust) \<Rightarrow>
               Some (mul_product exp_a mant_a exp_b mant_b exp_adjust)))"

text \<open>Lines 263 to 273: saturation, flush to zero, the denormal shift and the packing.\<close>

definition mul_result :: "u16 \<Rightarrow> u32 \<Rightarrow> int \<Rightarrow> bf16_t" where
  "mul_result result_sign result_mant result_exp =
     (if result_exp \<ge> 0xFF then signed_inf result_sign
      else if result_exp \<le> 0
      then (if result_exp < - 6 then signed_zero result_sign
            else pack result_sign 0 (drop_bit (nat (1 - result_exp)) result_mant))
      else pack result_sign result_exp result_mant)"

text \<open>
  \<^verbatim>\<open>bf16_mul\<close>. \<open>None\<close> is a call that does not return (a normalisation loop that does
  not end); \<open>Some r\<close> is the returned pattern.
\<close>

definition bf16_mul :: "bf16_t \<Rightarrow> bf16_t \<Rightarrow> bf16_t option" where
  "bf16_mul a b =
     (let sign_a = sign_of a; sign_b = sign_of b;
          exp_a = exp_of a; exp_b = exp_of b;
          mant_a = mant_of a; mant_b = mant_of b;
          result_sign = sign_a XOR sign_b
      in if exp_a = 0xFF
         then (if mant_a \<noteq> 0 then Some a
               else if exp_b = 0 \<and> mant_b = 0 then Some BF16_NAN
               else Some (signed_inf result_sign))
         else if exp_b = 0xFF
         then (if mant_b \<noteq> 0 then Some b
               else if exp_a = 0 \<and> mant_a = 0 then Some BF16_NAN
               else Some (signed_inf result_sign))
         else if (exp_a = 0 \<and> mant_a = 0) \<or> (exp_b = 0 \<and> mant_b = 0)
         then Some (signed_zero result_sign)
         else
           (case mul_core exp_a mant_a exp_b mant_b of
              None \<Rightarrow> None
            | Some (result_mant, result_exp) \<Rightarrow>
                Some (mul_result result_sign result_mant result_exp)))"

section \<open>Division\<close>

text \<open>
  The restoring division of \<^verbatim>\<open>bf16_div\<close>, 16 iterations on \<^verbatim>\<open>uint32_t\<close> values:
  \<^verbatim>\<open>for (int i = 0; i < 16; i++) { quotient <<= 1;
     if (dividend >= (divisor << (15 - i))) { dividend -= (divisor << (15 - i)); quotient |= 1; } }\<close>
  The result is \<open>(dividend, quot)\<close>, \<open>quot\<close> standing for \<^verbatim>\<open>quotient\<close>; the counter
  \<^verbatim>\<open>i\<close>, a C \<^verbatim>\<open>int\<close> that runs from 0 to 16, is a \<open>nat\<close>.
\<close>

function div_loop :: "nat \<Rightarrow> u32 \<Rightarrow> u32 \<Rightarrow> u32 \<Rightarrow> u32 \<times> u32" where
  "div_loop i dividend divisor quot =
     (if i < 16
      then (if dividend \<ge> push_bit (15 - i) divisor
            then div_loop (i + 1) (dividend - push_bit (15 - i) divisor) divisor
                   (push_bit 1 quot OR 1)
            else div_loop (i + 1) dividend divisor (push_bit 1 quot))
      else (dividend, quot))"
  by pat_completeness auto
termination
  by (relation "measure (\<lambda>(i, dividend, divisor, quot). 16 - i)") auto

declare div_loop.simps [simp del]

text \<open>
  \<^verbatim>\<open>while (!(quotient & 0x8000) && result_exp > 1) { quotient <<= 1; result_exp--; }\<close>
\<close>

function div_normalize :: "u32 \<Rightarrow> int \<Rightarrow> u32 \<times> int" where
  "div_normalize quot result_exp =
     (if quot AND 0x8000 = 0 \<and> result_exp > 1
      then div_normalize (push_bit 1 quot) (result_exp - 1)
      else (quot, result_exp))"
  by pat_completeness auto
termination
  by (relation "measure (\<lambda>(quot, result_exp). nat result_exp)") auto

declare div_normalize.simps [simp del]

definition bf16_div :: "bf16_t \<Rightarrow> bf16_t \<Rightarrow> bf16_t" where
  "bf16_div a b =
     (let sign_a = sign_of a; sign_b = sign_of b;
          exp_a = exp_of a; exp_b = exp_of b;
          mant_a = mant_of a; mant_b = mant_of b;
          result_sign = sign_a XOR sign_b
      in if exp_b = 0xFF
         then (if mant_b \<noteq> 0 then b
               else if exp_a = 0xFF \<and> mant_a = 0 then BF16_NAN
               else signed_zero result_sign)
         else if exp_b = 0 \<and> mant_b = 0
         then (if exp_a = 0 \<and> mant_a = 0 then BF16_NAN
               else signed_inf result_sign)
         else if exp_a = 0xFF
         then (if mant_a \<noteq> 0 then a else signed_inf result_sign)
         else if exp_a = 0 \<and> mant_a = 0 then signed_zero result_sign
         else
           (let mant_a = (if exp_a \<noteq> 0 then mant_a OR 0x80 else mant_a);
                mant_b = (if exp_b \<noteq> 0 then mant_b OR 0x80 else mant_b);
                dividend = (push_bit 15 (ucast mant_a) :: u32);
                divisor = (ucast mant_b :: u32);
                quot = snd (div_loop 0 dividend divisor 0);
                result_exp = exp_a - exp_b + 127;
                result_exp = (if exp_a = 0 then result_exp - 1 else result_exp);
                result_exp = (if exp_b = 0 then result_exp + 1 else result_exp);
                (quot, result_exp) =
                  (if quot AND 0x8000 \<noteq> 0 then (drop_bit 8 quot, result_exp)
                   else (case div_normalize quot result_exp of
                           (quot, result_exp) \<Rightarrow> (drop_bit 8 quot, result_exp)));
                quot = quot AND 0x7F
            in if result_exp \<ge> 0xFF then signed_inf result_sign
               else if result_exp \<le> 0 then signed_zero result_sign
               else pack result_sign result_exp quot))"

section \<open>Reference notions used in the statements\<close>

text \<open>
  The number of leading zero bits of a 32-bit value, read off its bits from bit 31
  downwards: the length of the longest run of 0 bits at the top.
\<close>

definition leading_zeros :: "u32 \<Rightarrow> nat" where
  "leading_zeros x = length (takeWhile (\<lambda>i. \<not> bit x i) (rev [0..<32]))"

section \<open>The multiplication helper computes the product modulo \<open>2 ^ 32\<close>\<close>

lemma word_halve: "push_bit 1 (drop_bit 1 b) + (b AND 1) = b" for b :: u32
  using bits_ident [of 1 b] by (simp add: and_one_eq take_bit_eq_mod)

lemma umul_loop_eq: "umul_loop a b result = result + a * b"
proof (induction a b result rule: umul_loop.induct)
  case (1 a b result)
  show ?case
  proof (cases "b = 0")
    case True
    then show ?thesis
      by (simp add: umul_loop.simps)
  next
    case False
    have b: "b = push_bit 1 (drop_bit 1 b) + (b AND 1)"
      by (simp only: word_halve)
    have step: "a * b = push_bit 1 a * drop_bit 1 b + a * (b AND 1)"
      by (subst b) (simp add: algebra_simps push_bit_eq_mult)
    have one: "b AND 1 \<noteq> 0 \<Longrightarrow> b AND 1 = 1"
      by (simp add: and_one_eq)
    show ?thesis
    proof (cases "b AND 1 = 0")
      case True
      with False "1.IH" step show ?thesis
        by (subst umul_loop.simps) simp
    next
      case odd: False
      with one have "b AND 1 = 1"
        by simp
      with False "1.IH" step show ?thesis
        by (subst umul_loop.simps) (simp add: add.assoc)
    qed
  qed
qed

text \<open>
  C10. For all 32-bit unsigned \<open>a\<close> and \<open>b\<close>, \<^verbatim>\<open>__mulsi3(a, b)\<close>, which is the
  shift-and-add helper \<^verbatim>\<open>umul\<close>, is the product of \<open>a\<close> and \<open>b\<close> modulo \<open>2 ^ 32\<close>.
\<close>

theorem mulsi3_is_product_mod_2_32:
  "mulsi3 a b = umul a b \<and> unat (mulsi3 a b) = (unat a * unat b) mod 2 ^ 32"
  by (simp add: mulsi3_def umul_def umul_loop_eq unat_word_ariths)

section \<open>The leading-zero count\<close>

lemma clz_0: "clz 0 = 32"
  by (simp add: clz_def clz_loop.simps)

lemma unat_drop_bit_div: "unat (drop_bit c x) = unat x div 2 ^ c" for x :: u32
  unfolding unat_drop_bit_eq by (rule drop_bit_eq_div)

lemma drop_bit_zero_iff: "drop_bit c x = 0 \<longleftrightarrow> unat x < 2 ^ c" for x :: u32
proof -
  have "drop_bit c x = 0 \<longleftrightarrow> unat (drop_bit c x) = 0"
    by (simp add: unat_eq_0)
  also have "\<dots> \<longleftrightarrow> unat x < 2 ^ c"
    by (simp add: unat_drop_bit_div div_eq_0_iff)
  finally show ?thesis .
qed

lemma clz_loop_step:
  "clz_loop x n c =
     (if c div 2 \<noteq> 0
      then clz_loop (if drop_bit c x \<noteq> 0 then drop_bit c x else x)
             (if drop_bit c x \<noteq> 0 then n - int c else n) (c div 2)
      else (if drop_bit c x \<noteq> 0 then n - int c else n,
            if drop_bit c x \<noteq> 0 then drop_bit c x else x))"
  by (subst clz_loop.simps) (simp add: Let_def)

lemma clz_loop_top:
  "x \<noteq> 0 \<Longrightarrow> unat x < 2 ^ (2 * 2 ^ j) \<Longrightarrow>
     \<exists>k. clz_loop x n (2 ^ j) = (n - int k, drop_bit k x) \<and> unat (drop_bit k x) = 1"
proof (induction j arbitrary: x n)
  case 0
  from 0 have pos: "0 < unat x"
    by (simp add: unat_gt_0)
  from 0 have lt: "unat x < 4"
    by simp
  show ?case
  proof (cases "drop_bit 1 x = 0")
    case True
    then have "unat x < 2"
      by (simp add: drop_bit_zero_iff)
    with pos have "unat (drop_bit 0 x) = 1"
      by simp
    moreover have "clz_loop x n (2 ^ 0) = (n - int 0, drop_bit 0 x)"
      using True by (subst clz_loop_step) simp
    ultimately show ?thesis
      by blast
  next
    case False
    then have "2 \<le> unat x"
      by (simp add: drop_bit_zero_iff)
    with lt have "unat (drop_bit 1 x) = 1"
      by (simp add: unat_drop_bit_div)
    moreover have "clz_loop x n (2 ^ 0) = (n - int 1, drop_bit 1 x)"
      using False by (subst clz_loop_step) simp
    ultimately show ?thesis
      by blast
  qed
next
  case (Suc j)
  let ?c = "2 ^ Suc j :: nat"
  have half: "?c div 2 = 2 ^ j" "?c div 2 \<noteq> 0"
    by simp_all
  show ?case
  proof (cases "drop_bit ?c x = 0")
    case True
    then have "unat x < 2 ^ (2 * 2 ^ j)"
      by (simp add: drop_bit_zero_iff)
    from Suc.IH [OF Suc.prems(1) this, of n]
    obtain k where "clz_loop x n (2 ^ j) = (n - int k, drop_bit k x)" "unat (drop_bit k x) = 1"
      by blast
    moreover have "clz_loop x n ?c = clz_loop x n (2 ^ j)"
      using True by (subst clz_loop_step) simp
    ultimately show ?thesis
      by auto
  next
    case False
    let ?y = "drop_bit ?c x"
    have "unat ?y < 2 ^ (2 * 2 ^ j)"
    proof -
      have "unat x < 2 ^ ?c * 2 ^ (2 * 2 ^ j)"
        using Suc.prems(2) by (simp add: power_add [symmetric] mult_2)
      then show ?thesis
        by (simp add: unat_drop_bit_div less_mult_imp_div_less mult.commute)
    qed
    from Suc.IH [OF False this, of "n - int ?c"]
    obtain k where k: "clz_loop ?y (n - int ?c) (2 ^ j) = (n - int ?c - int k, drop_bit k ?y)"
      "unat (drop_bit k ?y) = 1"
      by blast
    have "clz_loop x n ?c = clz_loop ?y (n - int ?c) (2 ^ j)"
      using False by (subst clz_loop_step) simp
    with k have "clz_loop x n ?c = (n - int (k + ?c), drop_bit (k + ?c) x)"
      "unat (drop_bit (k + ?c) x) = 1"
      by (simp_all add: add.commute)
    then show ?thesis
      by blast
  qed
qed


lemma clz_top:
  assumes "x \<noteq> 0"
  shows "\<exists>k<32. clz x = word_of_nat (31 - k) \<and> unat (drop_bit k x) = 1"
proof -
  have "unat x < 2 ^ (2 * 2 ^ 4)"
    using unsigned_less [of x] by simp
  from clz_loop_top [OF assms this, of 32]
  obtain k where k: "clz_loop x 32 16 = (32 - int k, drop_bit k x)" "unat (drop_bit k x) = 1"
    by auto
  from k(2) have one: "drop_bit k x = 1"
    by (simp add: word_unat_eq_iff)
  have "k < 32"
  proof (rule ccontr)
    assume "\<not> k < 32"
    then have "drop_bit k x = 0"
      by (simp add: drop_bit_word_beyond)
    with one show False by simp
  qed
  moreover from this have "word_of_int (32 - int k) - 1 = (word_of_nat (31 - k) :: u32)"
    by (simp add: of_nat_diff)
  ultimately show ?thesis
    using k one by (auto simp: clz_def)
qed

lemma takeWhile_True: "takeWhile (\<lambda>i. True) xs = xs"
  by (induction xs) simp_all

lemma leading_zeros_0: "leading_zeros 0 = 32"
  by (simp add: leading_zeros_def takeWhile_True)

lemma leading_zeros_top:
  assumes "k < 32" "bit x k" "\<And>i. k < i \<Longrightarrow> \<not> bit x i"
  shows "leading_zeros x = 31 - k"
proof -
  have "[0..<32] = [0..<k] @ k # [Suc k..<32]"
    using assms(1) by (metis le_add2 le_add_same_cancel2 less_imp_add_positive upt_add_eq_append upt_conv_Cons)
  then have "rev [0..<32] = rev [Suc k..<32] @ k # rev [0..<k]"
    by simp
  moreover have "takeWhile (\<lambda>i. \<not> bit x i) (rev [Suc k..<32] @ k # rev [0..<k]) =
      rev [Suc k..<32] @ takeWhile (\<lambda>i. \<not> bit x i) (k # rev [0..<k])"
    by (rule takeWhile_append2) (use assms(3) in auto)
  ultimately show ?thesis
    using assms(2) by (simp add: leading_zeros_def)
qed

lemma top_bit:
  fixes x :: u32
  assumes "unat (drop_bit k x) = 1"
  shows "bit x k" and "k < i \<Longrightarrow> \<not> bit x i"
    and "2 ^ k \<le> unat x" and "unat x < 2 ^ Suc k"
proof -
  from assms have one: "drop_bit k x = 1"
    by (simp add: word_unat_eq_iff)
  then show "bit x k"
    by (simp add: bit_iff_odd_drop_bit)
  show "\<not> bit x i" if "k < i"
  proof -
    from that obtain d where "i = Suc d + k"
      by (metis add_Suc less_iff_Suc_add add.commute)
    then have "drop_bit i x = drop_bit (Suc d) (drop_bit k x)"
      by simp
    with one show ?thesis
      by (simp add: bit_iff_odd_drop_bit)
  qed
  from assms have d: "unat x div 2 ^ k = 1"
    by (simp add: unat_drop_bit_div)
  show "2 ^ k \<le> unat x"
  proof (rule ccontr)
    assume "\<not> 2 ^ k \<le> unat x"
    then have "unat x div 2 ^ k = 0" by simp
    with d show False by simp
  qed
  show "unat x < 2 ^ Suc k"
  proof (rule ccontr)
    assume "\<not> unat x < 2 ^ Suc k"
    then have "2 * 2 ^ k \<le> unat x" by simp
    then have "2 \<le> unat x div 2 ^ k"
      by (simp add: less_eq_div_iff_mult_less_eq)
    with d show False by simp
  qed
qed

text \<open>
  C8. For every 32-bit unsigned \<open>x\<close>, \<^verbatim>\<open>clz(x)\<close> is the number of leading zero bits
  of \<open>x\<close>: it is 32 when \<open>x = 0\<close>, and for \<open>x \<noteq> 0\<close> it is \<open>31 - \<lfloor>log\<^sub>2 x\<rfloor>\<close>, that is
  \<open>2 ^ (31 - clz x) \<le> x < 2 ^ (32 - clz x)\<close>.
\<close>

theorem clz_counts_leading_zeros:
  "unat (clz x) = leading_zeros x \<and>
   (x = 0 \<longrightarrow> clz x = 32) \<and>
   (x \<noteq> 0 \<longrightarrow> unat (clz x) \<le> 31 \<and>
      2 ^ (31 - unat (clz x)) \<le> unat x \<and> unat x < 2 ^ (32 - unat (clz x)))"
proof (cases "x = 0")
  case True
  then show ?thesis
    by (simp add: clz_0 leading_zeros_0)
next
  case False
  from clz_top [OF False]
  obtain k where k: "k < 32" "clz x = word_of_nat (31 - k)" "unat (drop_bit k x) = 1"
    by blast
  from k(1) have "(31 - k) mod 2 ^ 32 = 31 - k"
    by simp
  then have c: "unat (clz x) = 31 - k"
    unfolding k(2) unat_of_nat by simp
  from k(1) have e: "31 - (31 - k) = k" "32 - (31 - k) = Suc k"
    by simp_all
  have "leading_zeros x = 31 - k"
    using k(1) top_bit(1,2) [OF k(3)] by (rule leading_zeros_top)
  with False c e top_bit(3,4) [OF k(3)] show ?thesis
    by simp
qed

theorem clz_counts_leading_zeros_witness:
  "(0x00012345 :: u32) \<noteq> 0 \<and> clz 0x00012345 = 15 \<and> leading_zeros 0x00012345 = 15 \<and>
   2 ^ 16 \<le> unat (0x00012345 :: u32) \<and> unat (0x00012345 :: u32) < 2 ^ 17 \<and>
   clz 0 = 32 \<and> leading_zeros 0 = 32"
proof -
  have c: "clz 0x00012345 = 15"
    by code_simp
  have n: "(0x00012345 :: u32) \<noteq> 0"
    by simp
  show ?thesis
    using clz_counts_leading_zeros [of "0x00012345"] clz_counts_leading_zeros [of 0]
    unfolding c by (simp add: n clz_0)
qed

section \<open>The test vectors of the source\<close>

text \<open>
  The seven checks of \<^verbatim>\<open>main\<close>, with the values their comments expect: 1.0 + 1.0 = 2.0,
  3.0 - 2.0 = 1.0, 2.0 * 3.0 = 6.0, 6.0 / 2.0 = 3.0, and the three predicates.
\<close>

lemma test_vectors:
  "bf16_add \<lparr>bits = 0x3F80\<rparr> \<lparr>bits = 0x3F80\<rparr> = \<lparr>bits = 0x4000\<rparr>"
  "bf16_sub \<lparr>bits = 0x4040\<rparr> \<lparr>bits = 0x4000\<rparr> = \<lparr>bits = 0x3F80\<rparr>"
  "bf16_mul \<lparr>bits = 0x4000\<rparr> \<lparr>bits = 0x4040\<rparr> = Some \<lparr>bits = 0x40C0\<rparr>"
  "bf16_div \<lparr>bits = 0x40C0\<rparr> \<lparr>bits = 0x4000\<rparr> = \<lparr>bits = 0x4040\<rparr>"
  "bf16_iszero BF16_ZERO" "bf16_isnan BF16_NAN" "bf16_isinf \<lparr>bits = 0x7F80\<rparr>"
  by code_simp+

section \<open>Bit fields of a pattern\<close>

text \<open>
  Equality of 16-bit words, bit by bit: with it the simplifier decides the facts about
  masks and shifts of a pattern below.
\<close>

lemma bit_index_cases:
  fixes n :: nat
  assumes "n < 16"
  obtains "n = 0" | "n = 1" | "n = 2" | "n = 3" | "n = 4" | "n = 5" | "n = 6" | "n = 7"
    | "n = 8" | "n = 9" | "n = 10" | "n = 11" | "n = 12" | "n = 13" | "n = 14" | "n = 15"
  using assms by atomize_elim arith

lemma u16_eq_iff:
  "x = y \<longleftrightarrow>
     (bit x 0 = bit y 0) \<and> (bit x 1 = bit y 1) \<and> (bit x 2 = bit y 2) \<and> (bit x 3 = bit y 3) \<and>
     (bit x 4 = bit y 4) \<and> (bit x 5 = bit y 5) \<and> (bit x 6 = bit y 6) \<and> (bit x 7 = bit y 7) \<and>
     (bit x 8 = bit y 8) \<and> (bit x 9 = bit y 9) \<and> (bit x 10 = bit y 10) \<and> (bit x 11 = bit y 11) \<and>
     (bit x 12 = bit y 12) \<and> (bit x 13 = bit y 13) \<and> (bit x 14 = bit y 14) \<and> (bit x 15 = bit y 15)"
  (is "_ \<longleftrightarrow> ?bits") for x y :: u16
proof
  assume "x = y"
  then show ?bits
    by simp
next
  assume b: ?bits
  show "x = y"
  proof (rule bit_word_eqI)
    fix n
    assume "n < LENGTH(16)"
    then have "n < 16"
      by simp
    then show "bit x n = bit y n"
      by (rule bit_index_cases) (use b in simp_all)
  qed
qed

lemma exp_of_range: "0 \<le> exp_of a" "exp_of a \<le> 255"
proof -
  have "drop_bit 7 (bits a) AND 0xFF \<le> (0xFF :: u16)"
    by (rule word_and_le1)
  then have "uint (drop_bit 7 (bits a) AND 0xFF) \<le> uint (0xFF :: u16)"
    by (simp only: word_le_def)
  then show "exp_of a \<le> 255"
    by (simp add: exp_of_def)
  show "0 \<le> exp_of a"
    by (simp add: exp_of_def)
qed

lemma exp_of_eq_iff: "exp_of a = uint w \<longleftrightarrow> drop_bit 7 (bits a) AND 0xFF = w"
  by (simp add: exp_of_def word_uint_eq_iff)

lemma exp_of_0_iff: "exp_of a = 0 \<longleftrightarrow> drop_bit 7 (bits a) AND 0xFF = 0"
  using exp_of_eq_iff [of a 0] by simp

lemma exp_of_255_iff: "exp_of a = 255 \<longleftrightarrow> drop_bit 7 (bits a) AND 0xFF = 255"
  using exp_of_eq_iff [of a 255] by simp

lemma iszero_iff: "bf16_iszero a \<longleftrightarrow> exp_of a = 0 \<and> mant_of a = 0"
  unfolding exp_of_0_iff bf16_iszero_def mant_of_def
  by (simp add: u16_eq_iff bit_simps) blast

lemma isnan_iff: "bf16_isnan a \<longleftrightarrow> exp_of a = 255 \<and> mant_of a \<noteq> 0"
  unfolding exp_of_255_iff bf16_isnan_def mant_of_def
  by (simp add: u16_eq_iff bit_simps) 

lemma isinf_iff: "bf16_isinf a \<longleftrightarrow> exp_of a = 255 \<and> mant_of a = 0"
  unfolding exp_of_255_iff bf16_isinf_def mant_of_def
  by (simp add: u16_eq_iff bit_simps) 

lemma finite_iff: "\<not> bf16_isnan a \<and> \<not> bf16_isinf a \<longleftrightarrow> exp_of a \<noteq> 255"
  by (auto simp: isnan_iff isinf_iff)

lemma mant_of_flip: "mant_of (a\<lparr>bits := bits a XOR 0x8000\<rparr>) = mant_of a"
  unfolding mant_of_def 
  by (simp add: u16_eq_iff bit_simps) 

lemma exp_of_flip: "exp_of (a\<lparr>bits := bits a XOR 0x8000\<rparr>) = exp_of a"
  unfolding exp_of_def 
  by (rule arg_cong [where f=uint]) (simp add: u16_eq_iff bit_simps) 

lemma sign_of_flip: "sign_of (a\<lparr>bits := bits a XOR 0x8000\<rparr>) \<noteq> sign_of a"
  unfolding sign_of_def 
  by (simp add: u16_eq_iff bit_simps) 

lemma sign_of_cases: "sign_of a = 0 \<or> sign_of a = 1"
  unfolding sign_of_def 
  by (simp add: u16_eq_iff bit_simps) 

lemma unat_ucast_u16: "unat (ucast w :: u32) = unat w" for w :: u16
proof -
  have "unat w < 2 ^ 16"
    using unsigned_less [of w] by simp
  then show ?thesis
    by (simp add: unsigned_ucast_eq take_bit_nat_eq_self)
qed

section \<open>Properties of addition\<close>

lemma add_aligned_cancel:
  "sign_a \<noteq> sign_b \<Longrightarrow> add_aligned sign_a sign_b mant mant result_exp = BF16_ZERO"
  by (simp add: add_aligned_def)

text \<open>
  C4, as the code has it: for every finite pattern \<open>x\<close> (neither NaN nor infinity),
  \<^verbatim>\<open>add(x, negate(x))\<close>, where \<^verbatim>\<open>negate(x)\<close> is \<open>x\<close> with the sign bit flipped as
  \<^verbatim>\<open>bf16_sub\<close> does it, is a zero pattern: its exponent and mantissa fields are both 0.
\<close>

theorem add_negate_finite_is_zero:
  assumes "\<not> bf16_isnan x" and "\<not> bf16_isinf x"
  shows "bf16_iszero (bf16_add x (x\<lparr>bits := bits x XOR 0x8000\<rparr>)) \<and>
         exp_of (bf16_add x (x\<lparr>bits := bits x XOR 0x8000\<rparr>)) = 0 \<and>
         mant_of (bf16_add x (x\<lparr>bits := bits x XOR 0x8000\<rparr>)) = 0 \<and>
         bf16_sub x x = bf16_add x (x\<lparr>bits := bits x XOR 0x8000\<rparr>)"
proof -
  let ?y = "x\<lparr>bits := bits x XOR 0x8000\<rparr>"
  from assms have fin: "exp_of x \<noteq> 255"
    by (auto simp: isnan_iff isinf_iff)
  have z: "bf16_iszero BF16_ZERO"
    by (simp add: bf16_iszero_def BF16_ZERO_def)
  have "bf16_iszero (bf16_add x ?y)"
  proof (cases "exp_of x = 0 \<and> mant_of x = 0")
    case True
    then have "bf16_add x ?y = ?y"
      by (simp add: bf16_add_def exp_of_flip mant_of_flip Let_def)
    moreover have "bf16_iszero ?y"
      using True by (simp add: iszero_iff exp_of_flip mant_of_flip)
    ultimately show ?thesis
      by simp
  next
    case False
    with fin have "bf16_add x ?y = BF16_ZERO"
      using sign_of_flip [of x]
      by (auto simp: bf16_add_def exp_of_flip mant_of_flip Let_def add_aligned_cancel)
    with z show ?thesis
      by simp
  qed
  then show ?thesis
    by (simp add: iszero_iff bf16_sub_def)
qed

theorem add_negate_finite_is_zero_witness:
  "\<not> bf16_isnan \<lparr>bits = 0x4049\<rparr> \<and> \<not> bf16_isinf \<lparr>bits = 0x4049\<rparr> \<and>
   bf16_add \<lparr>bits = 0x4049\<rparr> \<lparr>bits = 0xC049\<rparr> = \<lparr>bits = 0\<rparr> \<and>
   bf16_iszero (bf16_add \<lparr>bits = 0x4049\<rparr> \<lparr>bits = 0xC049\<rparr>)"
proof -
  have "\<not> bf16_isnan \<lparr>bits = 0x4049\<rparr>" "\<not> bf16_isinf \<lparr>bits = 0x4049\<rparr>"
    by (simp_all add: bf16_isnan_def bf16_isinf_def)
  moreover have "bf16_add \<lparr>bits = 0x4049\<rparr> \<lparr>bits = 0xC049\<rparr> = \<lparr>bits = 0\<rparr>"
    by code_simp
  ultimately show ?thesis
    using add_negate_finite_is_zero [of "\<lparr>bits = 0x4049\<rparr>"] by simp
qed

text \<open>
  C4 as stated, for every pattern, fails at infinity: \<open>+\<infinity> + (-\<infinity>)\<close> is the canonical NaN
  \<^verbatim>\<open>0x7FC0\<close>, whose exponent field is 255 and whose mantissa field is \<^verbatim>\<open>0x40\<close>.
\<close>

theorem add_negate_infinity_counterexample:
  "bf16_add \<lparr>bits = 0x7F80\<rparr> (\<lparr>bits = 0x7F80\<rparr>\<lparr>bits := 0x7F80 XOR 0x8000\<rparr>) = \<lparr>bits = 0x7FC0\<rparr> \<and>
   exp_of \<lparr>bits = 0x7FC0\<rparr> = 255 \<and> mant_of \<lparr>bits = 0x7FC0\<rparr> = 0x40 \<and>
   \<not> bf16_iszero (bf16_add \<lparr>bits = 0x7F80\<rparr> (\<lparr>bits = 0x7F80\<rparr>\<lparr>bits := 0x7F80 XOR 0x8000\<rparr>))"
  by (simp add: bf16_add_def sign_of_def exp_of_def mant_of_def BF16_NAN_def bf16_iszero_def)


text \<open>
  C6. For two finite nonzero operands whose stored exponents differ by more than 8,
  \<^verbatim>\<open>bf16_add\<close> returns the operand with the larger exponent, unchanged: \<open>a\<close> if
  \<open>exp_a - exp_b > 8\<close>, \<open>b\<close> if \<open>exp_b - exp_a > 8\<close>.
\<close>

theorem add_discards_small_operand:
  assumes "\<not> bf16_isnan a" "\<not> bf16_isinf a" "\<not> bf16_iszero a"
    and "\<not> bf16_isnan b" "\<not> bf16_isinf b" "\<not> bf16_iszero b"
  shows "(exp_of a - exp_of b > 8 \<longrightarrow> bf16_add a b = a) \<and>
         (exp_of b - exp_of a > 8 \<longrightarrow> bf16_add a b = b)"
proof -
  from assms have fin: "exp_of a \<noteq> 255" "exp_of b \<noteq> 255"
    by (auto simp: isnan_iff isinf_iff)
  from assms have nz: "\<not> (exp_of a = 0 \<and> mant_of a = 0)" "\<not> (exp_of b = 0 \<and> mant_of b = 0)"
    by (simp_all add: iszero_iff)
  show ?thesis
    using fin nz by (auto simp: bf16_add_def Let_def)
qed

theorem add_discards_small_operand_witness:
  "\<not> bf16_isnan \<lparr>bits = 0x4500\<rparr> \<and> \<not> bf16_isinf \<lparr>bits = 0x4500\<rparr> \<and> \<not> bf16_iszero \<lparr>bits = 0x4500\<rparr> \<and>
   \<not> bf16_isnan \<lparr>bits = 0x3FFF\<rparr> \<and> \<not> bf16_isinf \<lparr>bits = 0x3FFF\<rparr> \<and> \<not> bf16_iszero \<lparr>bits = 0x3FFF\<rparr> \<and>
   exp_of \<lparr>bits = 0x4500\<rparr> - exp_of \<lparr>bits = 0x3FFF\<rparr> = 11 \<and>
   bf16_add \<lparr>bits = 0x4500\<rparr> \<lparr>bits = 0x3FFF\<rparr> = \<lparr>bits = 0x4500\<rparr> \<and>
   bf16_add \<lparr>bits = 0x3FFF\<rparr> \<lparr>bits = 0x4500\<rparr> = \<lparr>bits = 0x4500\<rparr>"
proof -
  have c: "\<not> bf16_isnan \<lparr>bits = 0x4500\<rparr>" "\<not> bf16_isinf \<lparr>bits = 0x4500\<rparr>"
    "\<not> bf16_iszero \<lparr>bits = 0x4500\<rparr>"
    "\<not> bf16_isnan \<lparr>bits = 0x3FFF\<rparr>" "\<not> bf16_isinf \<lparr>bits = 0x3FFF\<rparr>"
    "\<not> bf16_iszero \<lparr>bits = 0x3FFF\<rparr>"
    by (simp_all add: bf16_isnan_def bf16_isinf_def bf16_iszero_def)
  have e: "exp_of \<lparr>bits = 0x4500\<rparr> = 138" "exp_of \<lparr>bits = 0x3FFF\<rparr> = 127"
    by (simp_all add: exp_of_def)
  show ?thesis
    using add_discards_small_operand [OF c] add_discards_small_operand [OF c(4-6) c(1-3)]
    by (simp add: c e)
qed

text \<open>
  Same-sign operands whose mantissa sum has its bit 7 set and fits the 8-bit window:
  the leading-zero count is 24, the loop bound is 0, no shift occurs and the result
  encodes the sum with the common exponent.
\<close>

lemma clz_window:
  fixes x :: u32
  assumes "128 \<le> unat x" "unat x < 256"
  shows "clz x = 24"
proof -
  from assms(1) have "x \<noteq> 0"
    by (auto simp: word_unat_eq_iff)
  from clz_top [OF this]
  obtain k where k: "k < 32" "clz x = word_of_nat (31 - k)" "unat (drop_bit k x) = 1"
    by blast
  from top_bit(3) [OF k(3)] assms(2) have "(2::nat) ^ k < 2 ^ 8"
    by simp
  then have "k < 8"
    by (simp only: power_strict_increasing_iff one_less_numeral_iff semiring_norm)
  moreover from top_bit(4) [OF k(3)] assms(1) have "(2::nat) ^ 7 < 2 ^ Suc k"
    by simp
  then have "7 < Suc k"
    by (simp only: power_strict_increasing_iff one_less_numeral_iff semiring_norm)
  ultimately have "k = 7"
    by simp
  with k(2) show ?thesis
    by simp
qed

lemma add_aligned_in_window:
  assumes "sign_a = sign_b"
    and "128 \<le> unat (ucast mant_a + ucast mant_b :: u32)"
    and "unat (ucast mant_a + ucast mant_b :: u32) < 256"
  shows "add_aligned sign_a sign_b mant_a mant_b result_exp =
         pack sign_a result_exp (ucast mant_a + ucast mant_b)"
proof -
  have "clz (ucast mant_a + ucast mant_b) = 24"
    using assms(2,3) by (rule clz_window)
  then show ?thesis
    using assms(1) by (simp add: add_aligned_def add_shift_right.simps)
qed

text \<open>
  C2 says that two same-sign finite nonzero operands whose mantissa sum fits the 8-bit
  window are added with no shift, the result encoding the sum with the common exponent.
  The code does so when the sum has its bit 7 set. On a smaller sum the loop bound
  \<^verbatim>\<open>32 - lz - 8\<close> wraps around in \<^verbatim>\<open>unsigned\<close>: for the two smallest denormals the sum is
  2, the bound is \<^verbatim>\<open>0xFFFFFFFA\<close>, the loop shifts until the exponent reaches 255 and the
  function returns the canonical NaN instead of \<^verbatim>\<open>0x0002\<close>.
\<close>

theorem add_small_denormals_is_nan:
  "sign_of \<lparr>bits = 0x0001\<rparr> = sign_of \<lparr>bits = 0x0001\<rparr> \<and>
   exp_of \<lparr>bits = 0x0001\<rparr> = 0 \<and> mant_of \<lparr>bits = 0x0001\<rparr> = 1 \<and>
   (ucast (mant_of \<lparr>bits = 0x0001\<rparr>) + ucast (mant_of \<lparr>bits = 0x0001\<rparr>) :: u32) = 2 \<and>
   32 - clz 2 - 8 = 0xFFFFFFFA \<and>
   bf16_add \<lparr>bits = 0x0001\<rparr> \<lparr>bits = 0x0001\<rparr> = \<lparr>bits = 0x7FC0\<rparr> \<and>
   bf16_isnan (bf16_add \<lparr>bits = 0x0001\<rparr> \<lparr>bits = 0x0001\<rparr>)"
proof -
  have "bf16_add \<lparr>bits = 0x0001\<rparr> \<lparr>bits = 0x0001\<rparr> = \<lparr>bits = 0x7FC0\<rparr>"
    by code_simp
  moreover have "32 - clz 2 - 8 = 0xFFFFFFFA"
    by (simp add: clz_def clz_loop.simps)
  ultimately show ?thesis
    by (simp add: sign_of_def exp_of_def mant_of_def bf16_isnan_def)
qed

text \<open>
  The same happens on every pair of same-sign denormals whose mantissas sum to less
  than \<^verbatim>\<open>0x80\<close>: the bound is at least \<open>2 ^ 32 - 7\<close>, so the loop runs until the exponent
  reaches 255.
\<close>

lemma add_shift_right_overflows:
  "result_exp < 255 \<Longrightarrow> unat i + nat (255 - result_exp) \<le> unat bound \<Longrightarrow>
     add_shift_right i bound result_mant result_exp = Inl BF16_NAN"
proof (induction "nat (254 - result_exp)" arbitrary: i result_mant result_exp)
  case 0
  then have "i < bound" "result_exp + 1 \<ge> 255"
    by (simp_all add: word_less_nat_alt)
  then show ?case
    by (subst add_shift_right.simps) simp
next
  case (Suc n)
  from Suc.prems have lt: "unat i < unat bound"
    by simp
  then have less: "i < bound"
    by (simp add: word_less_nat_alt)
  have "unat bound < 2 ^ 32"
    using unsigned_less [of bound] by simp
  with lt have succ: "unat (i + 1) = unat i + 1"
    by (simp add: unat_word_ariths)
  from Suc.hyps(2) have small: "\<not> result_exp + 1 \<ge> 255"
    by simp
  have "add_shift_right (i + 1) bound (drop_bit 1 result_mant) (result_exp + 1) = Inl BF16_NAN"
  proof (rule Suc.hyps(1))
    show "n = nat (254 - (result_exp + 1))"
      using Suc.hyps(2) by simp
    show "result_exp + 1 < 255"
      using small by simp
    show "unat (i + 1) + nat (255 - (result_exp + 1)) \<le> unat bound"
      using Suc.prems small by (simp add: succ)
  qed
  with less small show ?case
    by (subst add_shift_right.simps) simp
qed

lemma clz_below_window:
  fixes x :: u32
  assumes "x \<noteq> 0" "unat x < 128"
  shows "2 ^ 32 - 7 \<le> unat (32 - clz x - 8)"
proof -
  from clz_top [OF assms(1)]
  obtain k where k: "k < 32" "clz x = word_of_nat (31 - k)" "unat (drop_bit k x) = 1"
    by blast
  from top_bit(3) [OF k(3)] assms(2) have "(2::nat) ^ k < 2 ^ 7"
    by simp
  then have k7: "k < 7"
    by (simp only: power_strict_increasing_iff one_less_numeral_iff semiring_norm)
  then have "31 - k = 25 + (6 - k)"
    by simp
  then have "32 - clz x - 8 = - 1 - word_of_nat (6 - k)"
    unfolding k(2) by (simp only: of_nat_add) simp
  also have "\<dots> = word_of_nat (2 ^ 32 - 1 - (6 - k))"
    by (simp add: of_nat_diff)
  finally have "unat (32 - clz x - 8) = (2 ^ 32 - 1 - (6 - k)) mod 2 ^ 32"
    by (simp only: unat_of_nat) simp
  then show ?thesis
    by simp
qed

lemma add_denormals_below_window:
  assumes "exp_of a = 0" "mant_of a \<noteq> 0" "exp_of b = 0" "mant_of b \<noteq> 0"
    and "sign_of a = sign_of b"
    and "unat (mant_of a) + unat (mant_of b) < 128"
  shows "bf16_add a b = BF16_NAN"
proof -
  let ?s = "ucast (mant_of a) + ucast (mant_of b) :: u32"
  have u: "unat ?s = unat (mant_of a) + unat (mant_of b)"
    using assms(6) by (simp add: unat_word_ariths unat_ucast_u16)
  from assms(2) have "0 < unat (mant_of a)"
    by (simp add: unat_gt_0)
  with u have nz: "?s \<noteq> 0"
    by (auto simp: word_unat_eq_iff)
  from u assms(6) have "unat ?s < 128"
    by simp
  with nz have "2 ^ 32 - 7 \<le> unat (32 - clz ?s - 8)"
    by (rule clz_below_window)
  then have "add_shift_right 0 (32 - clz ?s - 8) ?s 0 = Inl BF16_NAN"
    by (intro add_shift_right_overflows) simp_all
  then have "add_aligned (sign_of a) (sign_of b) (mant_of a) (mant_of b) 0 = BF16_NAN"
    using assms(5) by (simp add: add_aligned_def)
  with assms(1-4) show ?thesis
    by (simp add: bf16_add_def Let_def)
qed

section \<open>Properties of division\<close>

text \<open>
  C1 says that a NaN operand of \<^verbatim>\<open>bf16_div\<close> is propagated. The code tests \<^verbatim>\<open>b\<close> for
  infinity and for zero before it tests \<^verbatim>\<open>a\<close> for NaN (line 300), so a NaN dividend is
  lost: NaN / infinity is a signed zero and NaN / 0 is a signed infinity.
\<close>

theorem div_nan_dividend_not_propagated:
  "bf16_isnan \<lparr>bits = 0x7FC0\<rparr> \<and> bf16_isinf \<lparr>bits = 0x7F80\<rparr> \<and> bf16_iszero \<lparr>bits = 0x0000\<rparr> \<and>
   bf16_div \<lparr>bits = 0x7FC0\<rparr> \<lparr>bits = 0x7F80\<rparr> = \<lparr>bits = 0x0000\<rparr> \<and>
   \<not> bf16_isnan (bf16_div \<lparr>bits = 0x7FC0\<rparr> \<lparr>bits = 0x7F80\<rparr>) \<and>
   bf16_div \<lparr>bits = 0x7FC0\<rparr> \<lparr>bits = 0x0000\<rparr> = \<lparr>bits = 0x7F80\<rparr> \<and>
   \<not> bf16_isnan (bf16_div \<lparr>bits = 0x7FC0\<rparr> \<lparr>bits = 0x0000\<rparr>)"
  by (simp add: bf16_div_def bf16_isnan_def bf16_isinf_def bf16_iszero_def sign_of_def exp_of_def
      mant_of_def signed_zero_def signed_inf_def)

text \<open>
  What the code does with a NaN operand, in general: a NaN divisor is returned; a NaN
  dividend is returned when the divisor is finite and nonzero, and is replaced by a
  signed zero when the divisor is an infinity and by a signed infinity when it is a zero.
\<close>

lemma div_nan_divisor: "bf16_isnan b \<Longrightarrow> bf16_div a b = b"
  by (simp add: isnan_iff bf16_div_def Let_def)

lemma div_nan_dividend:
  assumes "bf16_isnan a" and "\<not> bf16_isnan b" "\<not> bf16_isinf b" "\<not> bf16_iszero b"
  shows "bf16_div a b = a"
  using assms by (auto simp: isnan_iff isinf_iff iszero_iff bf16_div_def Let_def)

lemma div_nan_by_infinity:
  assumes "bf16_isnan a" "bf16_isinf b"
  shows "bf16_div a b = signed_zero (sign_of a XOR sign_of b)"
  using assms by (auto simp: isnan_iff isinf_iff bf16_div_def Let_def)

lemma div_nan_by_zero:
  assumes "bf16_isnan a" "bf16_iszero b"
  shows "bf16_div a b = signed_inf (sign_of a XOR sign_of b)"
  using assms by (auto simp: isnan_iff iszero_iff bf16_div_def Let_def)

lemma div_loop_zero_dividend:
  assumes "\<And>k. k < 16 \<Longrightarrow> push_bit k divisor \<noteq> 0"
  shows "i \<le> 16 \<Longrightarrow> div_loop i 0 divisor quot = (0, push_bit (16 - i) quot)"
proof (induction "16 - i" arbitrary: i quot)
  case 0
  then have "i = 16" by simp
  then show ?case
    by (simp add: div_loop.simps)
next
  case (Suc n)
  then have i: "i < 16" by simp
  then have nz: "push_bit (15 - i) divisor \<noteq> 0"
    using assms by simp
  from Suc have IH: "div_loop (i + 1) 0 divisor (push_bit 1 quot) =
      (0, push_bit (16 - (i + 1)) (push_bit 1 quot))"
    by simp
  from i have e: "16 - (i + 1) + 1 = 16 - i"
    by simp
  have "push_bit (16 - (i + 1)) (push_bit 1 quot) = push_bit (16 - i) quot"
    by (simp only: push_bit_push_bit e)
  with IH have "div_loop (i + 1) 0 divisor (push_bit 1 quot) = (0, push_bit (16 - i) quot)"
    by (simp only:)
  moreover have "div_loop i 0 divisor quot = div_loop (i + 1) 0 divisor (push_bit 1 quot)"
    using i nz by (subst div_loop.simps) simp
  ultimately show ?case
    by (simp only:)
qed

lemma push_bit_small_nonzero:
  fixes d :: u32
  assumes "d \<noteq> 0" "unat d < 256" "k < 16"
  shows "push_bit k d \<noteq> 0"
proof -
  have "(2::nat) ^ k < 2 ^ 16"
    using assms(3) by (intro power_strict_increasing) simp_all
  with assms(2) have "unat d * 2 ^ k < 256 * 2 ^ 16"
    by (intro mult_strict_mono) simp_all
  then have "unat d * 2 ^ k < 2 ^ 32"
    by simp
  then have "unat (push_bit k d) = unat d * 2 ^ k"
    by (subst unsigned_push_bit_eq) (simp add: take_bit_nat_eq_self push_bit_eq_mult)
  moreover have "0 < unat d"
    using assms(1) by (simp add: unat_gt_0)
  ultimately have "0 < unat (push_bit k d)"
    by simp
  then show ?thesis
    by (simp add: unat_gt_0)
qed

lemma div_loop_self:
  fixes d :: u32
  assumes "d \<noteq> 0" "unat d < 256"
  shows "div_loop 0 (push_bit 15 d) d 0 = (0, 0x8000)"
proof -
  have nz: "\<And>k. k < 16 \<Longrightarrow> push_bit k d \<noteq> 0"
    using assms by (rule push_bit_small_nonzero)
  have "div_loop 0 (push_bit 15 d) d 0 = div_loop 1 0 d 1"
    by (subst div_loop.simps) simp
  also have "\<dots> = (0, push_bit (16 - 1) 1)"
    by (rule div_loop_zero_dividend [OF nz]) simp_all
  finally show ?thesis
    by simp
qed

lemma mant_of_le: "mant_of a \<le> 0x7F"
  unfolding mant_of_def by (rule word_and_le1)

lemma mant_of_implicit_le: "mant_of a OR 0x80 \<le> 0xFF"
proof -
  have "(mant_of a OR 0x80) AND 0xFF = mant_of a OR 0x80"
    unfolding mant_of_def by (simp add: u16_eq_iff bit_simps)
  then show ?thesis
    by (metis word_and_le1)
qed

lemma mant_of_implicit_nonzero: "mant_of a OR 0x80 \<noteq> 0"
  by (simp add: u16_eq_iff bit_simps)

lemma significand_bound:
  "unat (ucast (mant_of a OR 0x80) :: u32) < 256" "(ucast (mant_of a OR 0x80) :: u32) \<noteq> 0"
  "unat (ucast (mant_of a) :: u32) < 256" "mant_of a \<noteq> 0 \<Longrightarrow> (ucast (mant_of a) :: u32) \<noteq> 0"
proof -
  show "unat (ucast (mant_of a OR 0x80) :: u32) < 256"
    using mant_of_implicit_le [of a] by (simp add: unat_ucast_u16 word_le_nat_alt)
  show "(ucast (mant_of a OR 0x80) :: u32) \<noteq> 0"
    using mant_of_implicit_nonzero [of a] by (simp add: word_unat_eq_iff unat_ucast_u16)
  show "unat (ucast (mant_of a) :: u32) < 256"
    using mant_of_le [of a] by (simp add: unat_ucast_u16 word_le_nat_alt)
  show "(ucast (mant_of a) :: u32) \<noteq> 0" if "mant_of a \<noteq> 0"
    using that by (simp add: word_unat_eq_iff unat_ucast_u16)
qed

text \<open>
  C7. For every finite nonzero pattern \<open>x\<close>, normal or denormal, \<^verbatim>\<open>bf16_div(x, x)\<close> is a
  normal value (stored exponent strictly between 0 and 255) of magnitude 1; in fact
  it is exactly the pattern \<^verbatim>\<open>0x3F80\<close> of 1.0, with exponent field 127 and mantissa
  field 0.
\<close>

theorem div_self_is_one:
  assumes "\<not> bf16_isnan x" "\<not> bf16_isinf x" "\<not> bf16_iszero x"
  shows "bf16_div x x = bf16_one \<and>
         0 < exp_of (bf16_div x x) \<and> exp_of (bf16_div x x) < 255 \<and>
         exp_of (bf16_div x x) = 127 \<and> mant_of (bf16_div x x) = 0 \<and>
         sign_of (bf16_div x x) = 0"
proof -
  from assms have fin: "exp_of x \<noteq> 255"
    by (auto simp: isnan_iff isinf_iff)
  from assms have nz: "\<not> (exp_of x = 0 \<and> mant_of x = 0)"
    by (simp add: iszero_iff)
  define m where "m = (if exp_of x \<noteq> 0 then mant_of x OR 0x80 else mant_of x)"
  have d: "(ucast m :: u32) \<noteq> 0" "unat (ucast m :: u32) < 256"
    using nz significand_bound [of x] by (auto simp: m_def)
  have q: "snd (div_loop 0 (push_bit 15 (ucast m)) (ucast m) 0) = 0x8000"
    using div_loop_self [OF d] by simp
  have p: "pack 0 127 0 = bf16_one"
    by (simp add: pack_def bf16_one_def)
  have "bf16_div x x = bf16_one"
    using fin nz q p unfolding m_def
    by (auto simp: bf16_div_def Let_def)
  then show ?thesis
    by (simp add: bf16_one_def exp_of_def mant_of_def sign_of_def)
qed

theorem div_self_is_one_witness:
  "\<not> bf16_isnan \<lparr>bits = 0x0001\<rparr> \<and> \<not> bf16_isinf \<lparr>bits = 0x0001\<rparr> \<and>
   \<not> bf16_iszero \<lparr>bits = 0x0001\<rparr> \<and>
   bf16_div \<lparr>bits = 0x0001\<rparr> \<lparr>bits = 0x0001\<rparr> = \<lparr>bits = 0x3F80\<rparr> \<and>
   \<not> bf16_isnan \<lparr>bits = 0xC0C0\<rparr> \<and> \<not> bf16_isinf \<lparr>bits = 0xC0C0\<rparr> \<and>
   \<not> bf16_iszero \<lparr>bits = 0xC0C0\<rparr> \<and>
   bf16_div \<lparr>bits = 0xC0C0\<rparr> \<lparr>bits = 0xC0C0\<rparr> = \<lparr>bits = 0x3F80\<rparr>"
proof -
  have c: "\<not> bf16_isnan \<lparr>bits = 0x0001\<rparr>" "\<not> bf16_isinf \<lparr>bits = 0x0001\<rparr>"
    "\<not> bf16_iszero \<lparr>bits = 0x0001\<rparr>"
    and d: "\<not> bf16_isnan \<lparr>bits = 0xC0C0\<rparr>" "\<not> bf16_isinf \<lparr>bits = 0xC0C0\<rparr>"
    "\<not> bf16_iszero \<lparr>bits = 0xC0C0\<rparr>"
    by (simp_all add: bf16_isnan_def bf16_isinf_def bf16_iszero_def)
  show ?thesis
    using div_self_is_one [OF c] div_self_is_one [OF d]
    by (simp add: c d bf16_one_def)
qed

section \<open>Properties of multiplication\<close>

text \<open>
  The normalisation loop ends on every nonzero 7-bit mantissa, after at least one shift,
  and the number of shifts does not depend on the starting \<^verbatim>\<open>exp_adjust\<close>.
\<close>

lemma bit7_iff: "m AND 0x80 = 0 \<longleftrightarrow> even (unat m div 128)" for m :: u16
proof -
  have "m AND 0x80 = 0 \<longleftrightarrow> \<not> bit m 7"
    by (simp add: u16_eq_iff bit_simps)
  also have "\<dots> \<longleftrightarrow> \<not> bit (unat m) 7"
    by (simp add: bit_unsigned_iff)
  also have "\<dots> \<longleftrightarrow> even (unat m div 128)"
    by (simp add: bit_iff_odd)
  finally show ?thesis .
qed

lemma unat_double: "unat (push_bit 1 m) = 2 * unat m" if "unat m < 128" for m :: u16
proof -
  from that have "2 * unat m < 2 ^ 16"
    by simp
  then show ?thesis
    by (subst unsigned_push_bit_eq) (simp add: take_bit_nat_eq_self push_bit_eq_mult)
qed

lemma mul_normalize_denormal:
  fixes m :: u16
  assumes "m \<noteq> 0" "unat m < 128"
  shows "\<exists>k m'. 1 \<le> k \<and> (\<forall>adj. mul_normalize m adj = Some (m', adj - int k))"
  using assms
proof (induction "128 - unat m" arbitrary: m rule: less_induct)
  case less
  from less.prems have pos: "0 < unat m"
    by (simp add: unat_gt_0)
  from less.prems have clear: "m AND 0x80 = 0"
    by (simp add: bit7_iff)
  let ?m2 = "push_bit 1 m :: u16"
  have u2: "unat ?m2 = 2 * unat m"
    using less.prems(2) by (rule unat_double)
  have step: "mul_normalize m adj = mul_normalize ?m2 (adj - 1)" for adj
    using clear by (subst mul_normalize.simps) simp
  show ?case
  proof (cases "?m2 AND 0x80 = 0")
    case True
    with u2 less.prems(2) have "unat ?m2 < 128"
      by (simp add: bit7_iff) presburger
    moreover from u2 pos have "?m2 \<noteq> 0"
      by (simp add: word_unat_eq_iff del: push_bit_of_Suc_0)
    moreover from u2 pos less.prems(2) have "128 - unat ?m2 < 128 - unat m"
      by simp
    ultimately obtain k m' where "1 \<le> k" "\<forall>adj. mul_normalize ?m2 adj = Some (m', adj - int k)"
      using less.hyps [of ?m2] by blast
    then have "1 \<le> Suc k" "\<forall>adj. mul_normalize m adj = Some (m', adj - int (Suc k))"
      by (simp_all add: step)
    then show ?thesis
      by blast
  next
    case False
    then have "\<forall>adj. mul_normalize m adj = Some (?m2, adj - int 1)"
      by (subst step, subst mul_normalize.simps) simp
    then show ?thesis
      by blast
  qed
qed


lemma mant_of_unat: "unat (mant_of a) < 128"
proof -
  have "mant_of a \<le> 0x7F"
    by (rule mant_of_le)
  then show ?thesis
    by (simp add: word_le_nat_alt)
qed

lemma mul_operand_total:
  assumes "\<not> (e = 0 \<and> m = 0)" "unat m < 128"
  shows "\<exists>e' m' k. (e = 0 \<longrightarrow> e' = 1 \<and> 1 \<le> k) \<and> (e \<noteq> 0 \<longrightarrow> e' = e \<and> k = 0) \<and>
           (\<forall>adj. mul_operand e m adj = Some (e', m', adj - int k))"
proof (cases "e = 0")
  case True
  with assms obtain k m' where "1 \<le> k" "\<forall>adj. mul_normalize m adj = Some (m', adj - int k)"
    using mul_normalize_denormal [of m] by blast
  with True have "(e = 0 \<longrightarrow> (1::int) = 1 \<and> 1 \<le> k) \<and> (e \<noteq> 0 \<longrightarrow> 1 = e \<and> k = 0) \<and>
      (\<forall>adj. mul_operand e m adj = Some (1, m', adj - int k))"
    by (simp add: mul_operand_def)
  then show ?thesis
    by blast
next
  case False
  then have "(e = 0 \<longrightarrow> e = 1 \<and> 1 \<le> (0::nat)) \<and> (e \<noteq> 0 \<longrightarrow> e = e \<and> (0::nat) = 0) \<and>
      (\<forall>adj. mul_operand e m adj = Some (e, m OR 0x80, adj - int 0))"
    by (simp add: mul_operand_def)
  then show ?thesis
    by blast
qed

lemma mul_product_commute:
  "mul_product exp_a mant_a exp_b mant_b exp_adjust = mul_product exp_b mant_b exp_a mant_a exp_adjust"
  by (simp add: mul_product_def mult.commute add.commute)

lemma mul_product_exp:
  "snd (mul_product exp_a mant_a exp_b mant_b exp_adjust) \<le> exp_a + exp_b - 127 + exp_adjust + 1"
  by (simp add: mul_product_def Let_def)

lemma mul_product_mant:
  "unat (fst (mul_product exp_a mant_a exp_b mant_b exp_adjust)) < 128"
proof -
  have "unat (w AND 0x7F) < 128" for w :: u32
  proof -
    have "w AND 0x7F \<le> 0x7F"
      by (rule word_and_le1)
    then show ?thesis
      by (simp add: word_le_nat_alt)
  qed
  then show ?thesis
    by (simp add: mul_product_def Let_def)
qed

text \<open>What \<open>mul_core\<close> computes on two finite nonzero operands.\<close>

lemma mul_core_total:
  assumes "\<not> (exp_a = 0 \<and> mant_a = 0)" "unat mant_a < 128"
    and "\<not> (exp_b = 0 \<and> mant_b = 0)" "unat mant_b < 128"
  shows "\<exists>result_mant result_exp.
           mul_core exp_a mant_a exp_b mant_b = Some (result_mant, result_exp) \<and>
           mul_core exp_b mant_b exp_a mant_a = Some (result_mant, result_exp) \<and>
           unat result_mant < 128 \<and>
           (exp_a = 0 \<and> exp_b = 0 \<longrightarrow> result_exp \<le> - 126)"
proof -
  from mul_operand_total [OF assms(1,2)] obtain ea ma ka where
    a: "exp_a = 0 \<longrightarrow> ea = 1 \<and> 1 \<le> ka" "exp_a \<noteq> 0 \<longrightarrow> ea = exp_a \<and> ka = 0"
      "\<And>adj. mul_operand exp_a mant_a adj = Some (ea, ma, adj - int ka)"
    by blast
  from mul_operand_total [OF assms(3,4)] obtain eb mb kb where
    b: "exp_b = 0 \<longrightarrow> eb = 1 \<and> 1 \<le> kb" "exp_b \<noteq> 0 \<longrightarrow> eb = exp_b \<and> kb = 0"
      "\<And>adj. mul_operand exp_b mant_b adj = Some (eb, mb, adj - int kb)"
    by blast
  let ?p = "mul_product ea ma eb mb (0 - int ka - int kb)"
  have ab: "mul_core exp_a mant_a exp_b mant_b = Some ?p"
    by (simp add: mul_core_def a(3) b(3))
  have "mul_core exp_b mant_b exp_a mant_a = Some (mul_product eb mb ea ma (0 - int kb - int ka))"
    by (simp add: mul_core_def a(3) b(3))
  also have "0 - int kb - int ka = 0 - int ka - int kb"
    by simp
  also have "mul_product eb mb ea ma (0 - int ka - int kb) = ?p"
    by (rule mul_product_commute)
  finally have ba: "mul_core exp_b mant_b exp_a mant_a = Some ?p" .
  have "snd ?p \<le> - 126" if "exp_a = 0 \<and> exp_b = 0"
    using that a(1) b(1) mul_product_exp [of ea ma eb mb "0 - int ka - int kb"] by simp
  with ab ba mul_product_mant [of ea ma eb mb "0 - int ka - int kb"] show ?thesis
    by (cases ?p) auto
qed


text \<open>The fields of the patterns that \<^verbatim>\<open>bf16_mul\<close> builds.\<close>

lemma sign_xor_cases: "sign_of a XOR sign_of b = 0 \<or> sign_of a XOR sign_of b = 1"
  using sign_of_cases [of a] sign_of_cases [of b] by (elim disjE) simp_all

lemma signed_zero_fields:
  assumes "s = 0 \<or> s = 1"
  shows "bf16_iszero (signed_zero s)" "sign_of (signed_zero s) = s"
  using assms by (auto simp: signed_zero_def bf16_iszero_def sign_of_def)

lemma signed_inf_fields:
  assumes "s = 0 \<or> s = 1"
  shows "bf16_isinf (signed_inf s)" "sign_of (signed_inf s) = s"
  using assms by (auto simp: signed_inf_def bf16_isinf_def sign_of_def)

lemma low7_u32: "w AND 0x7F = w" if "unat w < 128" for w :: u32
proof -
  have "w < 2 ^ 7"
    using that by (simp add: word_less_nat_alt)
  then have "w AND mask 7 = w"
    by (rule less_mask_eq)
  moreover have "(mask 7 :: u32) = 0x7F"
    by (simp add: mask_eq_exp_minus_1)
  ultimately show ?thesis
    by (simp only:)
qed

lemma low7_u16: "w AND 0x7F = w" if "unat w < 128" for w :: u16
proof -
  have "w < 2 ^ 7"
    using that by (simp add: word_less_nat_alt)
  then have "w AND mask 7 = w"
    by (rule less_mask_eq)
  moreover have "(mask 7 :: u16) = 0x7F"
    by (simp add: mask_eq_exp_minus_1)
  ultimately show ?thesis
    by (simp only:)
qed

lemma denormal_pack_fields:
  fixes m :: u32
  assumes "s = 0 \<or> s = 1" "unat m < 128"
  shows "exp_of (pack s 0 m) = 0" "mant_of (pack s 0 m) = ucast m" "sign_of (pack s 0 m) = s"
proof -
  let ?w = "ucast m :: u16"
  have "unat ?w = unat m"
    using assms(2) by (simp add: unsigned_ucast_eq take_bit_nat_eq_self)
  with assms(2) have w: "?w AND 0x7F = ?w"
    by (simp add: low7_u16)
  have m: "m AND 0x7F = m"
    using assms(2) by (rule low7_u32)
  have p: "pack s 0 m = \<lparr>bits = push_bit 15 s OR (?w AND 0x7F)\<rparr>"
    by (simp add: pack_def m w)
  show "exp_of (pack s 0 m) = 0"
    unfolding p exp_of_0_iff using assms(1) by (auto simp: u16_eq_iff bit_simps)
  have "mant_of (pack s 0 m) = ?w AND 0x7F"
    unfolding p mant_of_def using assms(1) by (auto simp: u16_eq_iff bit_simps)
  with w show "mant_of (pack s 0 m) = ?w"
    by simp
  show "sign_of (pack s 0 m) = s"
    unfolding p sign_of_def using assms(1) by (auto simp: u16_eq_iff bit_simps)
qed

text \<open>
  C9. When both operands are denormal (stored exponent 0, nonzero mantissa),
  \<^verbatim>\<open>bf16_mul\<close> returns the signed zero whose sign bit is the XOR of the operands' sign
  bits: the combined exponent is more than 6 below zero, so the flush to zero is taken.
\<close>

theorem mul_denormals_is_signed_zero:
  assumes "exp_of a = 0" "mant_of a \<noteq> 0" "exp_of b = 0" "mant_of b \<noteq> 0"
  shows "bf16_mul a b = Some (signed_zero (sign_of a XOR sign_of b)) \<and>
         bf16_iszero (signed_zero (sign_of a XOR sign_of b)) \<and>
         sign_of (signed_zero (sign_of a XOR sign_of b)) = sign_of a XOR sign_of b \<and>
         (\<exists>result_mant result_exp.
            mul_core (exp_of a) (mant_of a) (exp_of b) (mant_of b) = Some (result_mant, result_exp) \<and>
            result_exp < - 6)"
proof -
  from assms have nz: "\<not> (exp_of a = 0 \<and> mant_of a = 0)" "\<not> (exp_of b = 0 \<and> mant_of b = 0)"
    by simp_all
  from mul_core_total [OF nz(1) mant_of_unat nz(2) mant_of_unat]
  obtain result_mant result_exp where
    c: "mul_core (exp_of a) (mant_of a) (exp_of b) (mant_of b) = Some (result_mant, result_exp)"
    and e: "exp_of a = 0 \<and> exp_of b = 0 \<longrightarrow> result_exp \<le> - 126"
    by blast
  from e assms have lt: "result_exp < - 6"
    by simp
  then have "mul_result (sign_of a XOR sign_of b) result_mant result_exp =
      signed_zero (sign_of a XOR sign_of b)"
    by (simp add: mul_result_def)
  with c assms have "bf16_mul a b = Some (signed_zero (sign_of a XOR sign_of b))"
    by (simp add: bf16_mul_def Let_def)
  with c lt signed_zero_fields [OF sign_xor_cases [of a b]] show ?thesis
    by simp
qed

theorem mul_denormals_is_signed_zero_witness:
  "exp_of \<lparr>bits = 0x007F\<rparr> = 0 \<and> mant_of \<lparr>bits = 0x007F\<rparr> \<noteq> 0 \<and>
   exp_of \<lparr>bits = 0x8001\<rparr> = 0 \<and> mant_of \<lparr>bits = 0x8001\<rparr> \<noteq> 0 \<and>
   sign_of \<lparr>bits = 0x007F\<rparr> XOR sign_of \<lparr>bits = 0x8001\<rparr> = 1 \<and>
   bf16_mul \<lparr>bits = 0x007F\<rparr> \<lparr>bits = 0x8001\<rparr> = Some \<lparr>bits = 0x8000\<rparr>"
proof -
  have c: "exp_of \<lparr>bits = 0x007F\<rparr> = 0" "mant_of \<lparr>bits = 0x007F\<rparr> \<noteq> 0"
    "exp_of \<lparr>bits = 0x8001\<rparr> = 0" "mant_of \<lparr>bits = 0x8001\<rparr> \<noteq> 0"
    by (simp_all add: exp_of_def mant_of_def)
  have s: "sign_of \<lparr>bits = 0x007F\<rparr> XOR sign_of \<lparr>bits = 0x8001\<rparr> = 1"
    by (simp add: sign_of_def)
  show ?thesis
    using mul_denormals_is_signed_zero [OF c] unfolding s
    by (simp add: c signed_zero_def)
qed

text \<open>
  What lines 263 to 273 return on finite nonzero operands, with \<open>(result_mant, result_exp)\<close>
  the 7-bit product mantissa and the combined exponent of lines 236 to 261:
  \<open>result_exp \<ge> 255\<close> returns the signed infinity; \<open>result_exp < -6\<close> returns the signed
  zero; \<open>-6 < result_exp \<le> 0\<close> returns a pattern with stored exponent 0 and with the
  mantissa \<open>result_mant\<close> shifted right by \<open>1 - result_exp\<close>.
\<close>

lemma mul_result_by_exponent:
  assumes "\<not> bf16_isnan a" "\<not> bf16_isinf a" "\<not> bf16_iszero a"
    and "\<not> bf16_isnan b" "\<not> bf16_isinf b" "\<not> bf16_iszero b"
  shows "\<exists>result_mant result_exp.
           mul_core (exp_of a) (mant_of a) (exp_of b) (mant_of b) = Some (result_mant, result_exp) \<and>
           (result_exp \<ge> 255 \<longrightarrow>
              bf16_mul a b = Some (signed_inf (sign_of a XOR sign_of b)) \<and>
              bf16_isinf (signed_inf (sign_of a XOR sign_of b)) \<and>
              sign_of (signed_inf (sign_of a XOR sign_of b)) = sign_of a XOR sign_of b) \<and>
           (result_exp < - 6 \<longrightarrow>
              bf16_mul a b = Some (signed_zero (sign_of a XOR sign_of b)) \<and>
              bf16_iszero (signed_zero (sign_of a XOR sign_of b)) \<and>
              sign_of (signed_zero (sign_of a XOR sign_of b)) = sign_of a XOR sign_of b) \<and>
           (- 6 < result_exp \<and> result_exp \<le> 0 \<longrightarrow>
              (\<exists>r. bf16_mul a b = Some r \<and> exp_of r = 0 \<and>
                 mant_of r = ucast (drop_bit (nat (1 - result_exp)) result_mant) \<and>
                 sign_of r = sign_of a XOR sign_of b))"
proof -
  let ?s = "sign_of a XOR sign_of b"
  from assms have fin: "exp_of a \<noteq> 255" "exp_of b \<noteq> 255"
    by (auto simp: isnan_iff isinf_iff)
  from assms have nz: "\<not> (exp_of a = 0 \<and> mant_of a = 0)" "\<not> (exp_of b = 0 \<and> mant_of b = 0)"
    by (simp_all add: iszero_iff)
  from mul_core_total [OF nz(1) mant_of_unat nz(2) mant_of_unat]
  obtain result_mant result_exp where
    c: "mul_core (exp_of a) (mant_of a) (exp_of b) (mant_of b) = Some (result_mant, result_exp)"
    and m: "unat result_mant < 128"
    by blast
  from c fin nz have r: "bf16_mul a b = Some (mul_result ?s result_mant result_exp)"
    by (auto simp: bf16_mul_def Let_def)
  have s: "?s = 0 \<or> ?s = 1"
    by (rule sign_xor_cases)
  have hi: "bf16_mul a b = Some (signed_inf ?s)" if "result_exp \<ge> 255"
    using that r by (simp add: mul_result_def)
  have lo: "bf16_mul a b = Some (signed_zero ?s)" if "result_exp < - 6"
    using that r by (simp add: mul_result_def)
  have den: "\<exists>r. bf16_mul a b = Some r \<and> exp_of r = 0 \<and>
      mant_of r = ucast (drop_bit (nat (1 - result_exp)) result_mant) \<and> sign_of r = ?s"
    if "- 6 < result_exp \<and> result_exp \<le> 0"
  proof -
    let ?m = "drop_bit (nat (1 - result_exp)) result_mant"
    have "unat ?m \<le> unat result_mant"
      by (simp add: unat_drop_bit_div)
    with m have "unat ?m < 128"
      by simp
    from denormal_pack_fields [OF s this] that r show ?thesis
      by (simp add: mul_result_def)
  qed
  from c hi lo den signed_inf_fields [OF s] signed_zero_fields [OF s] show ?thesis
    by blast
qed


lemma mul_result_by_exponent_examples:
  "\<not> bf16_isnan \<lparr>bits = 0x00C0\<rparr> \<and> \<not> bf16_isinf \<lparr>bits = 0x00C0\<rparr> \<and> \<not> bf16_iszero \<lparr>bits = 0x00C0\<rparr> \<and>
   \<not> bf16_isnan \<lparr>bits = 0x3F00\<rparr> \<and> \<not> bf16_isinf \<lparr>bits = 0x3F00\<rparr> \<and> \<not> bf16_iszero \<lparr>bits = 0x3F00\<rparr> \<and>
   mul_core (exp_of \<lparr>bits = 0x00C0\<rparr>) (mant_of \<lparr>bits = 0x00C0\<rparr>)
     (exp_of \<lparr>bits = 0x3F00\<rparr>) (mant_of \<lparr>bits = 0x3F00\<rparr>) = Some (0x40, 0) \<and>
   bf16_mul \<lparr>bits = 0x00C0\<rparr> \<lparr>bits = 0x3F00\<rparr> = Some \<lparr>bits = 0x0020\<rparr> \<and>
   exp_of \<lparr>bits = 0x0020\<rparr> = 0 \<and> mant_of \<lparr>bits = 0x0020\<rparr> = ucast (drop_bit 1 (0x40 :: u32)) \<and>
   \<not> bf16_isnan \<lparr>bits = 0x7F00\<rparr> \<and> \<not> bf16_isinf \<lparr>bits = 0x7F00\<rparr> \<and> \<not> bf16_iszero \<lparr>bits = 0x7F00\<rparr> \<and>
   \<not> bf16_isnan \<lparr>bits = 0xC000\<rparr> \<and> \<not> bf16_isinf \<lparr>bits = 0xC000\<rparr> \<and> \<not> bf16_iszero \<lparr>bits = 0xC000\<rparr> \<and>
   mul_core (exp_of \<lparr>bits = 0x7F00\<rparr>) (mant_of \<lparr>bits = 0x7F00\<rparr>)
     (exp_of \<lparr>bits = 0xC000\<rparr>) (mant_of \<lparr>bits = 0xC000\<rparr>) = Some (0, 255) \<and>
   bf16_mul \<lparr>bits = 0x7F00\<rparr> \<lparr>bits = 0xC000\<rparr> = Some \<lparr>bits = 0xFF80\<rparr> \<and>
   \<not> bf16_isnan \<lparr>bits = 0x0280\<rparr> \<and> \<not> bf16_isinf \<lparr>bits = 0x0280\<rparr> \<and> \<not> bf16_iszero \<lparr>bits = 0x0280\<rparr> \<and>
   mul_core (exp_of \<lparr>bits = 0x0280\<rparr>) (mant_of \<lparr>bits = 0x0280\<rparr>)
     (exp_of \<lparr>bits = 0x0280\<rparr>) (mant_of \<lparr>bits = 0x0280\<rparr>) = Some (0, - 117) \<and>
   bf16_mul \<lparr>bits = 0x0280\<rparr> \<lparr>bits = 0x0280\<rparr> = Some \<lparr>bits = 0x0000\<rparr>"
proof -
  have a: "\<not> bf16_isnan \<lparr>bits = 0x00C0\<rparr>" "\<not> bf16_isinf \<lparr>bits = 0x00C0\<rparr>"
    "\<not> bf16_iszero \<lparr>bits = 0x00C0\<rparr>"
    and b: "\<not> bf16_isnan \<lparr>bits = 0x3F00\<rparr>" "\<not> bf16_isinf \<lparr>bits = 0x3F00\<rparr>"
    "\<not> bf16_iszero \<lparr>bits = 0x3F00\<rparr>"
    and c: "\<not> bf16_isnan \<lparr>bits = 0x7F00\<rparr>" "\<not> bf16_isinf \<lparr>bits = 0x7F00\<rparr>"
    "\<not> bf16_iszero \<lparr>bits = 0x7F00\<rparr>"
    and d: "\<not> bf16_isnan \<lparr>bits = 0xC000\<rparr>" "\<not> bf16_isinf \<lparr>bits = 0xC000\<rparr>"
    "\<not> bf16_iszero \<lparr>bits = 0xC000\<rparr>"
    and e: "\<not> bf16_isnan \<lparr>bits = 0x0280\<rparr>" "\<not> bf16_isinf \<lparr>bits = 0x0280\<rparr>"
    "\<not> bf16_iszero \<lparr>bits = 0x0280\<rparr>"
    by (simp_all add: bf16_isnan_def bf16_isinf_def bf16_iszero_def)
  have f: "exp_of \<lparr>bits = 0x00C0\<rparr> = 1" "mant_of \<lparr>bits = 0x00C0\<rparr> = 0x40"
    "exp_of \<lparr>bits = 0x3F00\<rparr> = 126" "mant_of \<lparr>bits = 0x3F00\<rparr> = 0"
    "exp_of \<lparr>bits = 0x7F00\<rparr> = 254" "mant_of \<lparr>bits = 0x7F00\<rparr> = 0"
    "exp_of \<lparr>bits = 0xC000\<rparr> = 128" "mant_of \<lparr>bits = 0xC000\<rparr> = 0"
    "exp_of \<lparr>bits = 0x0280\<rparr> = 5" "mant_of \<lparr>bits = 0x0280\<rparr> = 0"
    "exp_of \<lparr>bits = 0x0020\<rparr> = 0" "mant_of \<lparr>bits = 0x0020\<rparr> = 0x20"
    by (simp_all add: exp_of_def mant_of_def)
  have g: "mul_core 1 0x40 126 0 = Some (0x40, 0)" "mul_core 254 0 128 0 = Some (0, 255)"
    "mul_core 5 0 5 0 = Some (0, - 117)"
    by (simp_all add: mul_core_def mul_operand_def mul_product_def)
  have h: "bf16_mul \<lparr>bits = 0x00C0\<rparr> \<lparr>bits = 0x3F00\<rparr> = Some \<lparr>bits = 0x0020\<rparr>"
    "bf16_mul \<lparr>bits = 0x7F00\<rparr> \<lparr>bits = 0xC000\<rparr> = Some \<lparr>bits = 0xFF80\<rparr>"
    "bf16_mul \<lparr>bits = 0x0280\<rparr> \<lparr>bits = 0x0280\<rparr> = Some \<lparr>bits = 0x0000\<rparr>"
    by (simp_all add: bf16_mul_def f g sign_of_def mul_result_def pack_def signed_inf_def
        signed_zero_def)
  show ?thesis
    using mul_result_by_exponent [OF a b] mul_result_by_exponent [OF c d]
      mul_result_by_exponent [OF e e]
    by (simp add: a b c d e f g h)
qed

text \<open>
  In that last range the returned pattern is a zero exactly when the shifted 7-bit
  mantissa is 0, and a denormal otherwise.
\<close>

lemma mul_denormal_range_zero_iff:
  assumes "\<not> bf16_isnan a" "\<not> bf16_isinf a" "\<not> bf16_iszero a"
    and "\<not> bf16_isnan b" "\<not> bf16_isinf b" "\<not> bf16_iszero b"
    and "mul_core (exp_of a) (mant_of a) (exp_of b) (mant_of b) = Some (result_mant, result_exp)"
    and "- 6 \<le> result_exp" "result_exp \<le> 0"
  shows "\<exists>r. bf16_mul a b = Some r \<and>
           (bf16_iszero r \<longleftrightarrow> drop_bit (nat (1 - result_exp)) result_mant = 0)"
proof -
  let ?s = "sign_of a XOR sign_of b"
  let ?m = "drop_bit (nat (1 - result_exp)) result_mant"
  from assms have fin: "exp_of a \<noteq> 255" "exp_of b \<noteq> 255"
    by (auto simp: isnan_iff isinf_iff)
  from assms have nz: "\<not> (exp_of a = 0 \<and> mant_of a = 0)" "\<not> (exp_of b = 0 \<and> mant_of b = 0)"
    by (simp_all add: iszero_iff)
  from mul_core_total [OF nz(1) mant_of_unat nz(2) mant_of_unat] assms(7)
  have m: "unat result_mant < 128"
    by auto
  have "unat ?m \<le> unat result_mant"
    by (simp add: unat_drop_bit_div)
  with m have small: "unat ?m < 128"
    by simp
  have s: "?s = 0 \<or> ?s = 1"
    by (rule sign_xor_cases)
  from assms(7-9) fin nz have r: "bf16_mul a b = Some (pack ?s 0 ?m)"
    by (auto simp: bf16_mul_def Let_def mul_result_def)
  have "bf16_iszero (pack ?s 0 ?m) \<longleftrightarrow> (ucast ?m :: u16) = 0"
    using denormal_pack_fields(1,2) [OF s small] by (simp add: iszero_iff)
  also have "\<dots> \<longleftrightarrow> ?m = 0"
  proof -
    have "unat (ucast ?m :: u16) = unat ?m"
      using small by (simp add: unsigned_ucast_eq take_bit_nat_eq_self)
    then show ?thesis
      by (simp add: word_unat_eq_iff)
  qed
  finally show ?thesis
    using r by simp
qed

text \<open>
  C5 says that for finite nonzero operands a result exponent of 255 or more returns the
  signed infinity, one more than 6 below zero the signed zero, and one in \<open>(-6, 0]\<close> a
  denormal (stored exponent 0, nonzero mantissa) whose mantissa is the product mantissa
  shifted right by \<open>1 - exponent\<close>. The first two hold. In the third range the code shifts
  the product after lines 258 and 261 have masked it to its 7 fraction bits, so the
  leading 1 of the product is lost: \<^verbatim>\<open>0x0080\<close> times \<^verbatim>\<open>0x3F00\<close> (\<open>2\<^sup>-\<^sup>1\<^sup>2\<^sup>6\<close> times 0.5) has
  the product \<^verbatim>\<open>0x4000\<close> and the exponent 0, its 7-bit mantissa is 0, and the function
  returns the zero \<^verbatim>\<open>0x0000\<close> where the denormal \<^verbatim>\<open>0x0040\<close> is due. Likewise
  \<^verbatim>\<open>0x00C0\<close> times \<^verbatim>\<open>0x3F00\<close> returns the mantissa \<^verbatim>\<open>0x20\<close>, not \<^verbatim>\<open>0xC0 >> 1 = 0x60\<close>.
\<close>

theorem mul_denormal_range_returns_zero:
  "\<not> bf16_isnan \<lparr>bits = 0x0080\<rparr> \<and> \<not> bf16_isinf \<lparr>bits = 0x0080\<rparr> \<and> \<not> bf16_iszero \<lparr>bits = 0x0080\<rparr> \<and>
   \<not> bf16_isnan \<lparr>bits = 0x3F00\<rparr> \<and> \<not> bf16_isinf \<lparr>bits = 0x3F00\<rparr> \<and> \<not> bf16_iszero \<lparr>bits = 0x3F00\<rparr> \<and>
   mul_operand (exp_of \<lparr>bits = 0x0080\<rparr>) (mant_of \<lparr>bits = 0x0080\<rparr>) 0 = Some (1, 0x80, 0) \<and>
   mul_operand (exp_of \<lparr>bits = 0x3F00\<rparr>) (mant_of \<lparr>bits = 0x3F00\<rparr>) 0 = Some (126, 0x80, 0) \<and>
   (ucast (0x80 :: u16) * ucast (0x80 :: u16) :: u32) = 0x4000 \<and>
   drop_bit 7 (0x4000 :: u32) = 0x80 \<and>
   mul_product 1 0x80 126 0x80 0 = (0, 0) \<and>
   mul_core (exp_of \<lparr>bits = 0x0080\<rparr>) (mant_of \<lparr>bits = 0x0080\<rparr>)
     (exp_of \<lparr>bits = 0x3F00\<rparr>) (mant_of \<lparr>bits = 0x3F00\<rparr>) = Some (0, 0) \<and>
   bf16_mul \<lparr>bits = 0x0080\<rparr> \<lparr>bits = 0x3F00\<rparr> = Some \<lparr>bits = 0x0000\<rparr> \<and>
   bf16_iszero \<lparr>bits = 0x0000\<rparr> \<and> mant_of \<lparr>bits = 0x0000\<rparr> = 0 \<and>
   bf16_mul \<lparr>bits = 0x00C0\<rparr> \<lparr>bits = 0x3F00\<rparr> = Some \<lparr>bits = 0x0020\<rparr> \<and>
   drop_bit 1 (0xC0 :: u32) = 0x60"
proof -
  have f: "exp_of \<lparr>bits = 0x0080\<rparr> = 1" "mant_of \<lparr>bits = 0x0080\<rparr> = 0"
    "exp_of \<lparr>bits = 0x3F00\<rparr> = 126" "mant_of \<lparr>bits = 0x3F00\<rparr> = 0"
    "mant_of \<lparr>bits = 0x0000\<rparr> = 0"
    by (simp_all add: exp_of_def mant_of_def)
  have o: "mul_operand 1 0 0 = Some (1, 0x80, 0)" "mul_operand 126 0 0 = Some (126, 0x80, 0)"
    by (simp_all add: mul_operand_def)
  have p: "mul_product 1 0x80 126 0x80 0 = (0, 0)"
    by (simp add: mul_product_def)
  have c: "mul_core 1 0 126 0 = Some (0, 0)"
    by (simp add: mul_core_def o p)
  have m: "bf16_mul \<lparr>bits = 0x0080\<rparr> \<lparr>bits = 0x3F00\<rparr> = Some \<lparr>bits = 0x0000\<rparr>"
    by (simp add: bf16_mul_def f c sign_of_def mul_result_def pack_def)
  have n: "bf16_mul \<lparr>bits = 0x00C0\<rparr> \<lparr>bits = 0x3F00\<rparr> = Some \<lparr>bits = 0x0020\<rparr>"
    by code_simp
  show ?thesis
    by (simp add: f o p c m n bf16_isnan_def bf16_isinf_def bf16_iszero_def)
qed

section \<open>Commutativity\<close>

lemma add_aligned_commute:
  "add_aligned sign_a sign_b mant_a mant_b result_exp =
   add_aligned sign_b sign_a mant_b mant_a result_exp"
proof (cases "sign_a = sign_b")
  case True
  then show ?thesis
    by (simp add: add_aligned_def add.commute)
next
  case False
  consider "mant_a < mant_b" | "mant_a = mant_b" | "mant_b < mant_a"
    by (rule linorder_cases)
  then show ?thesis
  proof cases
    case 1
    with False show ?thesis
      by (simp add: add_aligned_def Let_def not_le less_imp_le)
  next
    case 2
    with False show ?thesis
      by (simp add: add_aligned_def Let_def)
  next
    case 3
    with False show ?thesis
      by (simp add: add_aligned_def Let_def not_le less_imp_le)
  qed
qed

lemma bf16_add_commute:
  assumes "exp_of a \<noteq> 255" "exp_of b \<noteq> 255"
    and "\<not> (exp_of a = 0 \<and> mant_of a = 0 \<and> exp_of b = 0 \<and> mant_of b = 0)"
  shows "bf16_add a b = bf16_add b a"
proof -
  consider "exp_of a - exp_of b > 0" | "exp_of a - exp_of b < 0" | "exp_of a = exp_of b"
    by linarith
  then show ?thesis
  proof cases
    case 1
    with assms show ?thesis
      by (auto simp: bf16_add_def Let_def add_aligned_commute [of "sign_of a" "sign_of b"])
  next
    case 2
    with assms show ?thesis
      by (auto simp: bf16_add_def Let_def add_aligned_commute [of "sign_of a" "sign_of b"])
  next
    case 3
    with assms show ?thesis
      by (auto simp: bf16_add_def Let_def add_aligned_commute [of "sign_of a" "sign_of b"])
  qed
qed

lemma bf16_mul_commute:
  assumes "exp_of a \<noteq> 255" "exp_of b \<noteq> 255"
  shows "bf16_mul a b = bf16_mul b a \<and> (\<exists>r. bf16_mul a b = Some r)"
proof (cases "(exp_of a = 0 \<and> mant_of a = 0) \<or> (exp_of b = 0 \<and> mant_of b = 0)")
  case True
  with assms show ?thesis
    by (auto simp: bf16_mul_def Let_def xor.commute)
next
  case False
  then have nz: "\<not> (exp_of a = 0 \<and> mant_of a = 0)" "\<not> (exp_of b = 0 \<and> mant_of b = 0)"
    by simp_all
  from mul_core_total [OF nz(1) mant_of_unat nz(2) mant_of_unat]
  obtain result_mant result_exp where
    "mul_core (exp_of a) (mant_of a) (exp_of b) (mant_of b) = Some (result_mant, result_exp)"
    "mul_core (exp_of b) (mant_of b) (exp_of a) (mant_of a) = Some (result_mant, result_exp)"
    by blast
  with assms nz show ?thesis
    by (auto simp: bf16_mul_def Let_def xor.commute)
qed

text \<open>
  C3, as the code has it: for all finite \<open>a\<close> and \<open>b\<close>, \<^verbatim>\<open>bf16_mul(a, b)\<close> and
  \<^verbatim>\<open>bf16_mul(b, a)\<close> return the same pattern, and \<^verbatim>\<open>bf16_add(a, b)\<close> and
  \<^verbatim>\<open>bf16_add(b, a)\<close> are the same pattern unless \<open>a\<close> and \<open>b\<close> are the two zeros of
  opposite sign.
\<close>

theorem add_mul_commute_finite:
  assumes "\<not> bf16_isnan a" "\<not> bf16_isinf a" "\<not> bf16_isnan b" "\<not> bf16_isinf b"
  shows "(\<not> (bf16_iszero a \<and> bf16_iszero b \<and> a \<noteq> b) \<longrightarrow> bf16_add a b = bf16_add b a) \<and>
         bf16_mul a b = bf16_mul b a \<and> (\<exists>r. bf16_mul a b = Some r)"
proof -
  from assms have fin: "exp_of a \<noteq> 255" "exp_of b \<noteq> 255"
    by (auto simp: isnan_iff isinf_iff)
  have "bf16_add a b = bf16_add b a" if "\<not> (bf16_iszero a \<and> bf16_iszero b \<and> a \<noteq> b)"
  proof (cases "a = b")
    case True
    then show ?thesis
      by simp
  next
    case False
    with that have "\<not> (exp_of a = 0 \<and> mant_of a = 0 \<and> exp_of b = 0 \<and> mant_of b = 0)"
      by (simp add: iszero_iff)
    with fin show ?thesis
      by (rule bf16_add_commute)
  qed
  with bf16_mul_commute [OF fin] show ?thesis
    by blast
qed

theorem add_mul_commute_finite_witness:
  "\<not> bf16_isnan \<lparr>bits = 0x4049\<rparr> \<and> \<not> bf16_isinf \<lparr>bits = 0x4049\<rparr> \<and>
   \<not> bf16_isnan \<lparr>bits = 0xBE20\<rparr> \<and> \<not> bf16_isinf \<lparr>bits = 0xBE20\<rparr> \<and>
   \<not> bf16_iszero \<lparr>bits = 0x4049\<rparr> \<and>
   bf16_add \<lparr>bits = 0x4049\<rparr> \<lparr>bits = 0xBE20\<rparr> = \<lparr>bits = 0x403F\<rparr> \<and>
   bf16_add \<lparr>bits = 0xBE20\<rparr> \<lparr>bits = 0x4049\<rparr> = \<lparr>bits = 0x403F\<rparr> \<and>
   bf16_mul \<lparr>bits = 0x4049\<rparr> \<lparr>bits = 0xBE20\<rparr> = Some \<lparr>bits = 0xBEFB\<rparr> \<and>
   bf16_mul \<lparr>bits = 0xBE20\<rparr> \<lparr>bits = 0x4049\<rparr> = Some \<lparr>bits = 0xBEFB\<rparr>"
proof -
  have c: "\<not> bf16_isnan \<lparr>bits = 0x4049\<rparr>" "\<not> bf16_isinf \<lparr>bits = 0x4049\<rparr>"
    "\<not> bf16_isnan \<lparr>bits = 0xBE20\<rparr>" "\<not> bf16_isinf \<lparr>bits = 0xBE20\<rparr>"
    and z: "\<not> bf16_iszero \<lparr>bits = 0x4049\<rparr>"
    by (simp_all add: bf16_isnan_def bf16_isinf_def bf16_iszero_def)
  have "bf16_add \<lparr>bits = 0x4049\<rparr> \<lparr>bits = 0xBE20\<rparr> = \<lparr>bits = 0x403F\<rparr>"
    by code_simp
  moreover have "bf16_mul \<lparr>bits = 0x4049\<rparr> \<lparr>bits = 0xBE20\<rparr> = Some \<lparr>bits = 0xBEFB\<rparr>"
    by code_simp
  ultimately show ?thesis
    using add_mul_commute_finite [OF c] by (simp add: c z)
qed

text \<open>
  C3 as stated, with signed zeros included, fails on the two zeros: a zero operand
  returns the other operand unchanged, so \<open>(+0) + (-0)\<close> is \<open>-0\<close> and \<open>(-0) + (+0)\<close> is \<open>+0\<close>.
\<close>

theorem add_signed_zeros_counterexample:
  "\<not> bf16_isnan \<lparr>bits = 0x0000\<rparr> \<and> \<not> bf16_isinf \<lparr>bits = 0x0000\<rparr> \<and>
   \<not> bf16_isnan \<lparr>bits = 0x8000\<rparr> \<and> \<not> bf16_isinf \<lparr>bits = 0x8000\<rparr> \<and>
   bf16_add \<lparr>bits = 0x0000\<rparr> \<lparr>bits = 0x8000\<rparr> = \<lparr>bits = 0x8000\<rparr> \<and>
   bf16_add \<lparr>bits = 0x8000\<rparr> \<lparr>bits = 0x0000\<rparr> = \<lparr>bits = 0x0000\<rparr> \<and>
   bf16_add \<lparr>bits = 0x0000\<rparr> \<lparr>bits = 0x8000\<rparr> \<noteq> bf16_add \<lparr>bits = 0x8000\<rparr> \<lparr>bits = 0x0000\<rparr>"
  by (simp add: bf16_add_def bf16_isnan_def bf16_isinf_def sign_of_def exp_of_def mant_of_def)

end
